theory Spec2Isabelle
  imports Main "HOL-Library.Multiset"
begin

section \<open>Data model (types.ts)\<close>

text \<open>
  A JavaScript string is a sequence of UTF-16 code units; a code unit is modelled by its
  number. \<open>str\<close> turns an ASCII literal into such a sequence.
\<close>

type_synonym js_string = "nat list"

definition str :: "string \<Rightarrow> js_string" where
  "str s = map of_char s"

text \<open>
  The interfaces of \<^verbatim>\<open>types.ts\<close>, restricted to the fields that the grouping, ranking,
  statistics and bitrate-display code read. A field declared with \<^verbatim>\<open>?\<close> is an
  \<open>option\<close>. JavaScript numbers are modelled as unbounded integers (the catalog holds byte
  counts, bit rates and years).

  Two fields are declared without \<^verbatim>\<open>?\<close> and are optional here. The items are the
  unvalidated result of \<^verbatim>\<open>response.json()\<close>, and the specification lists the external ids
  as optional, so an item may lack \<^verbatim>\<open>ProviderIds\<close>; the code reads
  \<^verbatim>\<open>item.ProviderIds.Tmdb\<close> unguarded, which raises a TypeError on such an item.
  Every read of \<^verbatim>\<open>MediaSource.Size\<close> is guarded (\<^verbatim>\<open>?.Size || 0\<close>), so a source may lack it.

  The field \<^verbatim>\<open>Id\<close> of an item is called \<open>ItemId\<close> and the field \<^verbatim>\<open>id\<close> of a group
  \<open>group_id\<close>, because \<open>Id\<close> and \<open>id\<close> are constants of HOL.
\<close>

record ProviderIds =
  Tmdb :: "js_string option"
  Imdb :: "js_string option"

record MediaStream =
  Type :: js_string
  BitRate :: "int option"

record MediaSource =
  Size :: "int option"
  Bitrate :: "int option"
  MediaStreams :: "MediaStream list"

record JellyfinItem =
  ItemId :: js_string
  Name :: js_string
  ProductionYear :: "int option"
  ProviderIds :: "ProviderIds option"
  MediaSources :: "MediaSource list option"

record DuplicateGroup =
  group_id :: js_string
  title :: js_string
  year :: "int option"
  items :: "JellyfinItem list"

section \<open>JavaScript primitives used by the code\<close>

datatype js_error = TypeError

text \<open>\<^verbatim>\<open>xs?.[0]\<close>: undefined when the array is undefined or has no element at index 0.\<close>

fun first_elem :: "'a list option \<Rightarrow> 'a option" where
  "first_elem None = None"
| "first_elem (Some []) = None"
| "first_elem (Some (x # xs)) = Some x"

text \<open>\<^verbatim>\<open>o?.f\<close> for an optional field \<open>f\<close>: undefined when \<open>o\<close> is.\<close>

fun opt_field :: "'a option \<Rightarrow> ('a \<Rightarrow> 'b option) \<Rightarrow> 'b option" where
  "opt_field None f = None"
| "opt_field (Some x) f = f x"

text \<open>\<^verbatim>\<open>v || 0\<close> on an optional number: undefined and 0 are falsy.\<close>

fun or_zero :: "int option \<Rightarrow> int" where
  "or_zero None = 0"
| "or_zero (Some n) = (if n = 0 then 0 else n)"

text \<open>
  \<^verbatim>\<open>Array.prototype.reduce\<close> without an initial value: the first element starts the
  accumulator, and an empty array raises a TypeError.
\<close>

fun reduce :: "('a \<Rightarrow> 'a \<Rightarrow> 'a) \<Rightarrow> 'a list \<Rightarrow> js_error + 'a" where
  "reduce f [] = Inl TypeError"
| "reduce f (x # xs) = Inr (foldl f x xs)"

section \<open>Ranking (Scanner.tsx, getBestItemId)\<close>

text \<open>\<^verbatim>\<open>item.MediaSources?.[0]?.Bitrate || 0\<close> and \<^verbatim>\<open>item.MediaSources?.[0]?.Size || 0\<close>.\<close>

definition sourceBitrate :: "JellyfinItem \<Rightarrow> int" where
  "sourceBitrate item = or_zero (opt_field (first_elem (MediaSources item)) Bitrate)"

definition sourceSize :: "JellyfinItem \<Rightarrow> int" where
  "sourceSize item = or_zero (opt_field (first_elem (MediaSources item)) Size)"

text \<open>The callback handed to \<^verbatim>\<open>reduce\<close>.\<close>

definition pickBetter :: "JellyfinItem \<Rightarrow> JellyfinItem \<Rightarrow> JellyfinItem" where
  "pickBetter prev current =
     (let prevBitrate = sourceBitrate prev;
          currBitrate = sourceBitrate current
      in if currBitrate > prevBitrate then current
         else if currBitrate = prevBitrate then
           (let prevSize = sourceSize prev;
                currSize = sourceSize current
            in if currSize > prevSize then current else prev)
         else prev)"

definition getBestItemId :: "JellyfinItem list \<Rightarrow> js_error + js_string" where
  "getBestItemId groupItems =
     (case reduce pickBetter groupItems of
        Inl e \<Rightarrow> Inl e
      | Inr best \<Rightarrow> Inr (ItemId best))"

section \<open>Strings\<close>

text \<open>
  \<^verbatim>\<open>String.prototype.toLowerCase\<close> is the Unicode lower-casing of the host. It is not a
  map over the code units (a capital sigma becomes a final or a medial small sigma by its
  context, U+0130 becomes two code units), so it is a parameter of every function that
  calls it, named \<open>toLowerCase\<close>.
\<close>

text \<open>The character class \<^verbatim>\<open>[a-z0-9]\<close> and \<^verbatim>\<open>s.replace(/[^a-z0-9]/g, '')\<close>.\<close>

definition in_az09 :: "nat \<Rightarrow> bool" where
  "in_az09 c = ((97 \<le> c \<and> c \<le> 122) \<or> (48 \<le> c \<and> c \<le> 57))"

definition strip_non_az09 :: "js_string \<Rightarrow> js_string" where
  "strip_non_az09 s = filter in_az09 s"

text \<open>\<^verbatim>\<open>s.startsWith(t)\<close> and \<^verbatim>\<open>s.includes(t)\<close> (\<open>includes\<close> is a keyword of Isabelle).\<close>

fun startsWith :: "js_string \<Rightarrow> js_string \<Rightarrow> bool" where
  "startsWith s [] = True"
| "startsWith [] (d # t) = False"
| "startsWith (c # s) (d # t) = (c = d \<and> startsWith s t)"

fun str_includes :: "js_string \<Rightarrow> js_string \<Rightarrow> bool" where
  "str_includes [] t = (t = [])"
| "str_includes (c # s) t = (startsWith (c # s) t \<or> str_includes s t)"

text \<open>
  A number inside a template literal: the decimal digits of an integer (code units 48 to
  57), with a minus sign (45) when it is negative.
\<close>

fun digits :: "nat \<Rightarrow> js_string" where
  "digits n = (if n < 10 then [48 + n] else digits (n div 10) @ [48 + n mod 10])"

declare digits.simps [simp del]

definition number_to_string :: "int \<Rightarrow> js_string" where
  "number_to_string n = (if n < 0 then 45 # digits (nat (- n)) else digits (nat n))"

text \<open>A string used as a condition: undefined and the empty string are falsy.\<close>

fun truthy_string :: "js_string option \<Rightarrow> js_string option" where
  "truthy_string None = None"
| "truthy_string (Some s) = (if s = [] then None else Some s)"

text \<open>A number used as a condition: undefined and 0 are falsy.\<close>

fun truthy_number :: "int option \<Rightarrow> int option" where
  "truthy_number None = None"
| "truthy_number (Some n) = (if n = 0 then None else Some n)"

section \<open>Grouping (Scanner.tsx, duplicateGroups)\<close>

text \<open>\<^verbatim>\<open>${item.ProductionYear || '0000'}\<close>\<close>

definition year_token :: "int option \<Rightarrow> js_string" where
  "year_token y =
     (case truthy_number y of None \<Rightarrow> str ''0000'' | Some n \<Rightarrow> number_to_string n)"

text \<open>
  The key of an item: TMDb id, else IMDb id, else normalised name and year. Reading a
  property of an absent \<^verbatim>\<open>ProviderIds\<close> raises.
\<close>

definition group_key :: "(js_string \<Rightarrow> js_string) \<Rightarrow> JellyfinItem \<Rightarrow> js_error + js_string" where
  "group_key toLowerCase item =
     (case ProviderIds item of
        None \<Rightarrow> Inl TypeError
      | Some ids \<Rightarrow>
         (case truthy_string (Tmdb ids) of
            Some tmdb \<Rightarrow> Inr (str ''tmdb-'' @ tmdb)
          | None \<Rightarrow>
             (case truthy_string (Imdb ids) of
                Some imdb \<Rightarrow> Inr (str ''imdb-'' @ imdb)
              | None \<Rightarrow>
                 (let normName = strip_non_az09 (toLowerCase (Name item))
                  in Inr (str ''name-'' @ normName @ str ''-''
                            @ year_token (ProductionYear item))))))"

text \<open>
  The object \<^verbatim>\<open>groups\<close> is a list of (key, group) pairs in the order in which the keys
  were first assigned. Every key starts with a letter and contains a hyphen, so none is an
  array index (which \<^verbatim>\<open>Object.values\<close> would list first) and none is a property inherited
  from \<^verbatim>\<open>Object.prototype\<close>: \<^verbatim>\<open>groups[key]\<close> is the own property or undefined, and
  \<^verbatim>\<open>Object.values\<close> lists the groups in insertion order.
\<close>

type_synonym groups_object = "(js_string \<times> DuplicateGroup) list"

fun obj_set :: "js_string \<Rightarrow> 'v \<Rightarrow> (js_string \<times> 'v) list \<Rightarrow> (js_string \<times> 'v) list" where
  "obj_set k v [] = [(k, v)]"
| "obj_set k v (p # ps) = (if fst p = k then (k, v) # ps else p # obj_set k v ps)"

definition Object_values :: "(js_string \<times> 'v) list \<Rightarrow> 'v list" where
  "Object_values obj = map snd obj"

text \<open>
  The body of \<^verbatim>\<open>items.forEach\<close>: the group of the item's key is created when the key is new
  (title and year from this item, no members), then the item is pushed onto its members.
\<close>

definition add_item ::
    "(js_string \<Rightarrow> js_string) \<Rightarrow> groups_object \<Rightarrow> JellyfinItem \<Rightarrow> js_error + groups_object" where
  "add_item toLowerCase groups item =
     (case group_key toLowerCase item of
        Inl e \<Rightarrow> Inl e
      | Inr key \<Rightarrow>
         (let g = (case map_of groups key of
                     None \<Rightarrow> \<lparr>group_id = key, title = Name item,
                               year = ProductionYear item, items = []\<rparr>
                   | Some g \<Rightarrow> g)
          in Inr (obj_set key (g\<lparr>items := items g @ [item]\<rparr>) groups)))"

text \<open>\<^verbatim>\<open>items.forEach\<close>: an exception in the body ends the loop and leaves the function.\<close>

fun forEach_add ::
    "(js_string \<Rightarrow> js_string) \<Rightarrow> groups_object \<Rightarrow> JellyfinItem list \<Rightarrow> js_error + groups_object" where
  "forEach_add toLowerCase groups [] = Inr groups"
| "forEach_add toLowerCase groups (item # rest) =
     (case add_item toLowerCase groups item of
        Inl e \<Rightarrow> Inl e
      | Inr groups' \<Rightarrow> forEach_add toLowerCase groups' rest)"

definition groupItems ::
    "(js_string \<Rightarrow> js_string) \<Rightarrow> JellyfinItem list \<Rightarrow> js_error + groups_object" where
  "groupItems toLowerCase all_items = forEach_add toLowerCase [] all_items"

text \<open>
  \<^verbatim>\<open>Array.prototype.sort\<close> with a comparison function. For a consistent comparator the
  language fixes the result: sorted, and stable. Insertion from the right is the reference
  implementation here; an element goes before the first element it does not follow.
\<close>

fun insert_sorted :: "('a \<Rightarrow> 'a \<Rightarrow> int) \<Rightarrow> 'a \<Rightarrow> 'a list \<Rightarrow> 'a list" where
  "insert_sorted cmp x [] = [x]"
| "insert_sorted cmp x (y # ys) =
     (if cmp x y \<le> 0 then x # y # ys else y # insert_sorted cmp x ys)"

fun array_sort :: "('a \<Rightarrow> 'a \<Rightarrow> int) \<Rightarrow> 'a list \<Rightarrow> 'a list" where
  "array_sort cmp [] = []"
| "array_sort cmp (x # xs) = insert_sorted cmp x (array_sort cmp xs)"

text \<open>What the language requires of a comparison function.\<close>

definition consistent :: "('a \<Rightarrow> 'a \<Rightarrow> int) \<Rightarrow> bool" where
  "consistent cmp \<longleftrightarrow>
     (\<forall>a b. (cmp a b < 0) = (0 < cmp b a)) \<and>
     (\<forall>a b c. cmp a b \<le> 0 \<and> cmp b c \<le> 0 \<longrightarrow> cmp a c \<le> 0)"

text \<open>
  The three stages after the partition: groups of one member are dropped, the search term
  (when not empty) filters on the title, the rest is sorted by title.
  \<^verbatim>\<open>String.prototype.localeCompare\<close> depends on the host's locale and is a parameter.
\<close>

definition removeSingles :: "groups_object \<Rightarrow> DuplicateGroup list" where
  "removeSingles groups = filter (\<lambda>g. length (items g) > 1) (Object_values groups)"

definition searchFilter ::
    "(js_string \<Rightarrow> js_string) \<Rightarrow> js_string \<Rightarrow> DuplicateGroup list \<Rightarrow> DuplicateGroup list" where
  "searchFilter toLowerCase searchTerm duplicates =
     (if searchTerm \<noteq> [] then
        (let lowerSearch = toLowerCase searchTerm
         in filter (\<lambda>g. str_includes (toLowerCase (title g)) lowerSearch) duplicates)
      else duplicates)"

definition duplicateGroups ::
    "(js_string \<Rightarrow> js_string \<Rightarrow> int) \<Rightarrow> (js_string \<Rightarrow> js_string) \<Rightarrow> JellyfinItem list
      \<Rightarrow> js_string \<Rightarrow> js_error + DuplicateGroup list" where
  "duplicateGroups localeCompare toLowerCase all_items searchTerm =
     (case groupItems toLowerCase all_items of
        Inl e \<Rightarrow> Inl e
      | Inr groups \<Rightarrow>
         (let duplicates = removeSingles groups;
              duplicates = searchFilter toLowerCase searchTerm duplicates
          in Inr (array_sort (\<lambda>a b. localeCompare (title a) (title b)) duplicates)))"

section \<open>Statistics (Scanner.tsx, totalDuplicates and wastedSpace)\<close>

text \<open>
  \<^verbatim>\<open>Math.max\<close> of no argument is \<^verbatim>\<open>-Infinity\<close>, so the running total is a number or an
  infinity. The total is the value of \<^verbatim>\<open>total\<close> after the loop, before the division and
  \<^verbatim>\<open>toFixed\<close>.
\<close>

datatype js_number = Num int | PosInfinity | NegInfinity | NaN

fun Math_max :: "int list \<Rightarrow> js_number" where
  "Math_max [] = NegInfinity"
| "Math_max (x # xs) = Num (foldl max x xs)"

fun js_neg :: "js_number \<Rightarrow> js_number" where
  "js_neg (Num n) = Num (- n)"
| "js_neg PosInfinity = NegInfinity"
| "js_neg NegInfinity = PosInfinity"
| "js_neg NaN = NaN"

fun js_add :: "js_number \<Rightarrow> js_number \<Rightarrow> js_number" where
  "js_add (Num a) (Num b) = Num (a + b)"
| "js_add NaN y = NaN"
| "js_add x NaN = NaN"
| "js_add PosInfinity NegInfinity = NaN"
| "js_add NegInfinity PosInfinity = NaN"
| "js_add PosInfinity y = PosInfinity"
| "js_add NegInfinity y = NegInfinity"
| "js_add x PosInfinity = PosInfinity"
| "js_add x NegInfinity = NegInfinity"

definition js_sub :: "js_number \<Rightarrow> js_number \<Rightarrow> js_number" where
  "js_sub x y = js_add x (js_neg y)"

definition totalDuplicates :: "DuplicateGroup list \<Rightarrow> int" where
  "totalDuplicates groups = foldl (\<lambda>acc grp. acc + int (length (items grp)) - 1) 0 groups"

definition wastedOfGroup :: "DuplicateGroup \<Rightarrow> js_number" where
  "wastedOfGroup grp =
     (let sizes = map sourceSize (items grp);
          totalGroup = foldl (\<lambda>a b. a + b) 0 sizes;
          max = Math_max sizes
      in js_sub (Num totalGroup) max)"

definition wastedSpace_total :: "DuplicateGroup list \<Rightarrow> js_number" where
  "wastedSpace_total groups = foldl (\<lambda>total grp. js_add total (wastedOfGroup grp)) (Num 0) groups"

section \<open>Displayed bitrate (DuplicateItem.tsx)\<close>



section \<open>The specification's wording, for comparison with the code\<close>

text \<open>
  The bitrate and the size of the primary (first) media source, 0 when the entry has no
  source or the source lacks the field.
\<close>

definition primary_bitrate :: "JellyfinItem \<Rightarrow> int" where
  "primary_bitrate item =
     (case MediaSources item of
        None \<Rightarrow> 0
      | Some [] \<Rightarrow> 0
      | Some (s # rest) \<Rightarrow> (case Bitrate s of None \<Rightarrow> 0 | Some b \<Rightarrow> b))"

definition primary_size :: "JellyfinItem \<Rightarrow> int" where
  "primary_size item =
     (case MediaSources item of
        None \<Rightarrow> 0
      | Some [] \<Rightarrow> 0
      | Some (s # rest) \<Rightarrow> (case Size s of None \<Rightarrow> 0 | Some n \<Rightarrow> n))"

text \<open>
  The selection rule: the candidate replaces the running best iff its bitrate is strictly
  greater, or the bitrates are equal and its size is strictly greater.
\<close>

definition outranks :: "JellyfinItem \<Rightarrow> JellyfinItem \<Rightarrow> bool" where
  "outranks candidate best \<longleftrightarrow>
     primary_bitrate candidate > primary_bitrate best \<or>
     (primary_bitrate candidate = primary_bitrate best
        \<and> primary_size candidate > primary_size best)"

definition spec_step :: "JellyfinItem \<Rightarrow> JellyfinItem \<Rightarrow> JellyfinItem" where
  "spec_step best candidate = (if outranks candidate best then candidate else best)"

text \<open>
  Lower-casing on ASCII text, which every Unicode lower-casing performs: A to Z move to a to
  z, one code unit at a time.
\<close>

definition ascii_lower :: "nat \<Rightarrow> nat" where
  "ascii_lower c = (if 65 \<le> c \<and> c \<le> 90 then c + 32 else c)"

definition is_ascii :: "js_string \<Rightarrow> bool" where
  "is_ascii s \<longleftrightarrow> (\<forall>c \<in> set s. c < 128)"

definition lowers_ascii :: "(js_string \<Rightarrow> js_string) \<Rightarrow> bool" where
  "lowers_ascii toLowerCase \<longleftrightarrow> (\<forall>s. is_ascii s \<longrightarrow> toLowerCase s = map ascii_lower s)"

text \<open>
  Deleting every character outside a to z and 0 to 9, and the normalised title of an ASCII
  title, by the alphabets.
\<close>

definition spec_keep :: "js_string \<Rightarrow> js_string" where
  "spec_keep s = filter (\<lambda>c. c \<in> set (str ''abcdefghijklmnopqrstuvwxyz0123456789'')) s"

definition spec_lower :: "nat \<Rightarrow> nat" where
  "spec_lower c =
     (case map_of (zip (str ''ABCDEFGHIJKLMNOPQRSTUVWXYZ'') (str ''abcdefghijklmnopqrstuvwxyz'')) c of
        None \<Rightarrow> c | Some l \<Rightarrow> l)"

definition spec_normalizedTitle :: "js_string \<Rightarrow> js_string" where
  "spec_normalizedTitle t = spec_keep (map spec_lower t)"

text \<open>The release year, or the token 0000 when the year is 0 or missing.\<close>

definition spec_yearToken :: "int option \<Rightarrow> js_string" where
  "spec_yearToken y =
     (case y of
        None \<Rightarrow> str ''0000''
      | Some n \<Rightarrow> if n = 0 then str ''0000'' else number_to_string n)"

text \<open>An external id that is not "present and non-empty".\<close>

definition absent_or_empty :: "js_string option \<Rightarrow> bool" where
  "absent_or_empty v \<longleftrightarrow> v = None \<or> v = Some []"

text \<open>One string contains another.\<close>

definition contains :: "js_string \<Rightarrow> js_string \<Rightarrow> bool" where
  "contains s t \<longleftrightarrow> (\<exists>a b. s = a @ t @ b)"

text \<open>
  A case-insensitive substring, for a lower-casing \<open>f\<close> of single code units: some
  substring of \<open>s\<close> has the length of \<open>t\<close> and agrees with \<open>t\<close> at every position up to
  case.
\<close>

definition ci_substring :: "(nat \<Rightarrow> nat) \<Rightarrow> js_string \<Rightarrow> js_string \<Rightarrow> bool" where
  "ci_substring f t s \<longleftrightarrow>
     (\<exists>a m b. s = a @ m @ b \<and> length m = length t \<and> (\<forall>i < length t. f (m ! i) = f (t ! i)))"

text \<open>
  The key of an item that has a \<^verbatim>\<open>ProviderIds\<close> object, and the step of the loop on such an
  item: what \<open>group_key\<close> and \<open>add_item\<close> return when they do not raise.
\<close>

definition key_of :: "(js_string \<Rightarrow> js_string) \<Rightarrow> JellyfinItem \<Rightarrow> js_string" where
  "key_of toLowerCase item = (case group_key toLowerCase item of Inl e \<Rightarrow> [] | Inr k \<Rightarrow> k)"

definition add_keyed :: "(js_string \<Rightarrow> js_string) \<Rightarrow> groups_object \<Rightarrow> JellyfinItem \<Rightarrow> groups_object" where
  "add_keyed toLowerCase groups item =
     (let key = key_of toLowerCase item;
          g = (case map_of groups key of
                 None \<Rightarrow> \<lparr>group_id = key, title = Name item,
                           year = ProductionYear item, items = []\<rparr>
               | Some g \<Rightarrow> g)
      in obj_set key (g\<lparr>items := items g @ [item]\<rparr>) groups)"

definition keyed_groups :: "(js_string \<Rightarrow> js_string) \<Rightarrow> JellyfinItem list \<Rightarrow> groups_object" where
  "keyed_groups toLowerCase all_items = foldl (add_keyed toLowerCase) [] all_items"

text \<open>
  The group of a key over a catalog: the entries of that key in catalog order, title and
  year from the first of them. It describes the groups that the loop builds.
\<close>

definition group_of_key ::
    "(js_string \<Rightarrow> js_string) \<Rightarrow> js_string \<Rightarrow> JellyfinItem list \<Rightarrow> DuplicateGroup" where
  "group_of_key toLowerCase k all_items =
     (let members = filter (\<lambda>i. key_of toLowerCase i = k) all_items
      in \<lparr>group_id = k, title = Name (hd members),
          year = ProductionYear (hd members), items = members\<rparr>)"

section \<open>Instances of the host's functions, for the examples\<close>

text \<open>A comparison function: the order of the code units.\<close>

fun compare_units :: "js_string \<Rightarrow> js_string \<Rightarrow> int" where
  "compare_units [] [] = 0"
| "compare_units [] (d # t) = - 1"
| "compare_units (c # s) [] = 1"
| "compare_units (c # s) (d # t) =
     (if c < d then - 1 else if d < c then 1 else compare_units s t)"

text \<open>
  A lower-casing that follows the Unicode mapping on ASCII, on Latin-1, on the Greek
  letters from U+0391 to U+03C9, on U+0130 and on U+212A, and leaves every other code unit
  as it is. A capital sigma (U+03A3) becomes the final sigma (U+03C2) when a cased letter
  precedes it and none follows it, case-ignorable code units skipped, and the medial sigma
  (U+03C3) otherwise; U+0130 becomes i followed by U+0307.
\<close>

definition lower_unit :: "nat \<Rightarrow> nat" where
  "lower_unit c =
     (if (0x41 \<le> c \<and> c \<le> 0x5A) \<or> (0xC0 \<le> c \<and> c \<le> 0xDE \<and> c \<noteq> 0xD7)
         \<or> (0x391 \<le> c \<and> c \<le> 0x3AB \<and> c \<noteq> 0x3A2)
      then c + 32
      else if c = 0x212A then 0x6B else c)"

definition cased :: "nat \<Rightarrow> bool" where
  "cased c \<longleftrightarrow>
     (0x41 \<le> c \<and> c \<le> 0x5A) \<or> (0x61 \<le> c \<and> c \<le> 0x7A)
     \<or> c = 0xAA \<or> c = 0xB5 \<or> c = 0xBA
     \<or> (0xC0 \<le> c \<and> c \<le> 0xFF \<and> c \<noteq> 0xD7 \<and> c \<noteq> 0xF7)
     \<or> c = 0x130 \<or> (0x391 \<le> c \<and> c \<le> 0x3C9 \<and> c \<noteq> 0x3A2) \<or> c = 0x212A"

definition case_ignorable :: "nat \<Rightarrow> bool" where
  "case_ignorable c \<longleftrightarrow>
     c \<in> {0x27, 0x2E, 0x3A, 0x5E, 0x60, 0xA8, 0xAD, 0xAF, 0xB4, 0xB7, 0xB8, 0x307}"

definition cased_follows :: "js_string \<Rightarrow> bool" where
  "cased_follows s =
     (case dropWhile case_ignorable s of [] \<Rightarrow> False | d # rest \<Rightarrow> cased d)"

fun lower_from :: "bool \<Rightarrow> js_string \<Rightarrow> js_string" where
  "lower_from after [] = []"
| "lower_from after (c # s) =
     (if c = 0x3A3 then
        (if after \<and> \<not> cased_follows s then 0x3C2 else 0x3C3) # lower_from True s
      else if c = 0x130 then 0x69 # 0x307 # lower_from True s
      else lower_unit c # lower_from (if case_ignorable c then after else cased c) s)"

definition toLowerCase_sample :: "js_string \<Rightarrow> js_string" where
  "toLowerCase_sample s = lower_from False s"

section \<open>Example inputs\<close>

text \<open>A catalog entry with a \<^verbatim>\<open>ProviderIds\<close> object, and a media source without streams.\<close>

definition entry :: "js_string \<Rightarrow> js_string \<Rightarrow> int option \<Rightarrow> js_string option
    \<Rightarrow> js_string option \<Rightarrow> MediaSource list option \<Rightarrow> JellyfinItem" where
  "entry i n y t m srcs =
     \<lparr>ItemId = i, Name = n, ProductionYear = y,
      ProviderIds = Some \<lparr>Tmdb = t, Imdb = m\<rparr>, MediaSources = srcs\<rparr>"

definition source :: "int option \<Rightarrow> int option \<Rightarrow> MediaSource" where
  "source b s = \<lparr>Size = s, Bitrate = b, MediaStreams = []\<rparr>"

text \<open>
  The members of the specification's example, (bitrate, size) = (5000, 10), (8000, 5),
  (8000, 5), and members among which the size decides: (8000, 5), (8000, 7), (8000, 7),
  (7000, 100).
\<close>

definition ex_members :: "JellyfinItem list" where
  "ex_members =
     [entry (str ''a'') (str ''M'') None None None (Some [source (Some 5000) (Some 10)]),
      entry (str ''b'') (str ''M'') None None None (Some [source (Some 8000) (Some 5)]),
      entry (str ''c'') (str ''M'') None None None (Some [source (Some 8000) (Some 5)])]"

definition ex_members_size :: "JellyfinItem list" where
  "ex_members_size =
     [entry (str ''a'') (str ''M'') None None None (Some [source (Some 8000) (Some 5)]),
      entry (str ''b'') (str ''M'') None None None (Some [source (Some 8000) (Some 7)]),
      entry (str ''c'') (str ''M'') None None None (Some [source (Some 8000) (Some 7)]),
      entry (str ''d'') (str ''M'') None None None (Some [source (Some 7000) (Some 100)])]"

text \<open>
  Entries for the three ways of deriving a key, an entry whose name is the Kelvin sign
  (U+212A, lower-cased to k), and an entry without \<^verbatim>\<open>ProviderIds\<close>.
\<close>

definition ex_tmdb :: JellyfinItem where
  "ex_tmdb = entry (str ''a'') (str ''Foo'') (Some 1999) (Some (str ''1'')) (Some (str ''tt7'')) None"

definition ex_imdb :: JellyfinItem where
  "ex_imdb = entry (str ''b'') (str ''Foo'') (Some 1999) (Some []) (Some (str ''tt7'')) None"

definition ex_spider1 :: JellyfinItem where
  "ex_spider1 = entry (str ''c'') (str ''Spider-Man'') (Some 2002) None None None"

definition ex_spider2 :: JellyfinItem where
  "ex_spider2 = entry (str ''d'') (str ''SpiderMan'') (Some 2002) None (Some []) None"

definition ex_year0 :: JellyfinItem where
  "ex_year0 = entry (str ''e'') (str ''Up'') (Some 0) None None None"

definition ex_noyear :: JellyfinItem where
  "ex_noyear = entry (str ''f'') (str ''Up'') None None None None"

definition ex_kelvin :: JellyfinItem where
  "ex_kelvin = entry (str ''g'') [0x212A] None None None None"

definition ex_no_ids :: JellyfinItem where
  "ex_no_ids =
     \<lparr>ItemId = str ''h'', Name = str ''Bar'', ProductionYear = None,
      ProviderIds = None, MediaSources = None\<rparr>"

text \<open>
  A catalog: two entries of TMDb id 1, two of IMDb id tt9, two that share a normalised
  name and year, and one entry on its own, with no optional field but \<^verbatim>\<open>ProviderIds\<close>.
\<close>

definition ex_catalog :: "JellyfinItem list" where
  "ex_catalog =
     [entry (str ''1'') (str ''Foo'') None (Some (str ''1'')) None
        (Some [source (Some 1000) None]),
      entry (str ''2'') (str ''Barbarian'') (Some 2022) None (Some (str ''tt9'')) None,
      entry (str ''3'') (str ''Foo'') None (Some (str ''1'')) None
        (Some [source (Some 2000) None]),
      entry (str ''4'') (str ''Bar'') None None None None,
      entry (str ''5'') (str ''barbarian'') (Some 2022) None (Some (str ''tt9'')) (Some []),
      entry (str ''6'') (str ''Foo'') (Some 2011) None None None,
      entry (str ''7'') (str ''FOO!'') (Some 2011) None None None]"

definition summary :: "DuplicateGroup \<Rightarrow> js_string \<times> js_string \<times> js_string list" where
  "summary g = (group_id g, title g, map ItemId (items g))"

text \<open>
  Two entries titled ECOLE with an acute accent on the first letter (U+00C9), and the search
  term ecole with an acute accent on the first letter (U+00E9).
\<close>

definition ex_ecole_catalog :: "JellyfinItem list" where
  "ex_ecole_catalog =
     [entry (str ''1'') (0xC9 # str ''COLE'') None (Some (str ''5'')) None None,
      entry (str ''2'') (0xC9 # str ''COLE'') None (Some (str ''5'')) None None]"

definition ex_ecole_term :: js_string where
  "ex_ecole_term = 0xE9 # str ''cole''"

text \<open>
  Two entries titled with the Greek capitals kappa, omicron, sigma, mu, omicron, sigma, and
  the search term kappa, omicron, sigma in capitals, the first three letters of the title.
\<close>

definition ex_kosmos_title :: js_string where
  "ex_kosmos_title = [0x39A, 0x39F, 0x3A3, 0x39C, 0x39F, 0x3A3]"

definition ex_kosmos_catalog :: "JellyfinItem list" where
  "ex_kosmos_catalog =
     [entry (str ''1'') ex_kosmos_title None (Some (str ''8'')) None None,
      entry (str ''2'') ex_kosmos_title None (Some (str ''8'')) None None]"

definition ex_kosmos_term :: js_string where
  "ex_kosmos_term = [0x39A, 0x39F, 0x3A3]"

text \<open>A group whose members have sizes 10, 20 and 30.\<close>

definition ex_sizes_group :: DuplicateGroup where
  "ex_sizes_group =
     \<lparr>group_id = str ''tmdb-7'', title = str ''Heat'', year = Some 1995,
      items = [entry (str ''p'') (str ''Heat'') (Some 1995) (Some (str ''7'')) None
                 (Some [source None (Some 10)]),
               entry (str ''q'') (str ''Heat'') (Some 1995) (Some (str ''7'')) None
                 (Some [source None (Some 20)]),
               entry (str ''r'') (str ''Heat'') (Some 1995) (Some (str ''7'')) None
                 (Some [source None (Some 30)])]\<rparr>"





section \<open>Evaluation of the examples\<close>

lemmas eval_defs = group_key_def entry_def toLowerCase_sample_def lower_unit_def cased_def
  case_ignorable_def cased_follows_def strip_non_az09_def in_az09_def year_token_def str_def
  number_to_string_def digits.simps source_def Let_def
  groupItems_def add_item_def duplicateGroups_def removeSingles_def searchFilter_def
  Object_values_def summary_def

section \<open>Properties of the ranking\<close>

lemma sourceBitrate_primary: "sourceBitrate item = primary_bitrate item"
  by (simp add: sourceBitrate_def primary_bitrate_def split: option.splits list.splits)

lemma sourceSize_primary: "sourceSize item = primary_size item"
  by (simp add: sourceSize_def primary_size_def split: option.splits list.splits)

lemma pickBetter_spec_step: "pickBetter prev current = spec_step prev current"
  by (simp add: pickBetter_def spec_step_def outranks_def Let_def
      sourceBitrate_primary sourceSize_primary)

lemma pickBetter_cases: "pickBetter prev current = prev \<or> pickBetter prev current = current"
  by (simp add: pickBetter_def Let_def)

lemma foldl_pickBetter_mem: "foldl pickBetter x xs \<in> set (x # xs)"
proof (induction xs arbitrary: x)
  case Nil
  show ?case by simp
next
  case (Cons y ys)
  have "foldl pickBetter (pickBetter x y) ys \<in> set (pickBetter x y # ys)"
    by (rule Cons.IH)
  moreover have "pickBetter x y = x \<or> pickBetter x y = y"
    by (rule pickBetter_cases)
  ultimately show ?case by auto
qed

lemma getBestItemId_Cons:
  "getBestItemId (x # xs) = Inr (ItemId (foldl spec_step x xs))"
proof -
  have "pickBetter = spec_step"
    by (intro ext) (rule pickBetter_spec_step)
  then show ?thesis by (simp add: getBestItemId_def)
qed

lemma getBestItemId_mem:
  "\<exists>x \<in> set (y # ys). getBestItemId (y # ys) = Inr (ItemId x)"
  using foldl_pickBetter_mem [of y ys] by (auto simp: getBestItemId_def)

subsection \<open>The reduction keeps the first entry of maximal (bitrate, size)\<close>

lemma outranks_irrefl: "\<not> outranks a a"
  by (simp add: outranks_def)

lemma outranks_trans_le: "outranks y r \<Longrightarrow> \<not> outranks a r \<Longrightarrow> outranks y a"
  by (auto simp: outranks_def)

lemma outranks_asym: "outranks y a \<Longrightarrow> \<not> outranks a y"
  by (auto simp: outranks_def)

lemma spec_step_first_max_snoc:
  assumes k: "k < length l"
    and mx: "\<forall>j<length l. \<not> outranks (l ! j) (l ! k)"
    and before: "\<forall>j<k. outranks (l ! k) (l ! j)"
  shows "\<exists>k'<length (l @ [y]). spec_step (l ! k) y = (l @ [y]) ! k'
      \<and> (\<forall>j<length (l @ [y]). \<not> outranks ((l @ [y]) ! j) ((l @ [y]) ! k'))
      \<and> (\<forall>j<k'. outranks ((l @ [y]) ! k') ((l @ [y]) ! j))"
proof (cases "outranks y (l ! k)")
  case True
  have above: "outranks y (l ! j)" if "j < length l" for j
    using True mx that outranks_trans_le by blast
  have "spec_step (l ! k) y = (l @ [y]) ! length l"
    using True by (simp add: spec_step_def)
  moreover have "\<forall>j<length (l @ [y]). \<not> outranks ((l @ [y]) ! j) ((l @ [y]) ! length l)"
    using above outranks_asym outranks_irrefl by (auto simp: nth_append less_Suc_eq)
  moreover have "\<forall>j<length l. outranks ((l @ [y]) ! length l) ((l @ [y]) ! j)"
    using above by (simp add: nth_append)
  moreover have "length l < length (l @ [y])" by simp
  ultimately show ?thesis by blast
next
  case False
  have "spec_step (l ! k) y = (l @ [y]) ! k"
    using False k by (simp add: spec_step_def nth_append)
  moreover have "\<forall>j<length (l @ [y]). \<not> outranks ((l @ [y]) ! j) ((l @ [y]) ! k)"
    using False k mx by (auto simp: nth_append less_Suc_eq)
  moreover have "\<forall>j<k. outranks ((l @ [y]) ! k) ((l @ [y]) ! j)"
    using before k by (simp add: nth_append)
  moreover have "k < length (l @ [y])" using k by simp
  ultimately show ?thesis by blast
qed

lemma foldl_spec_step_first_max:
  "\<exists>k<length (x # xs). foldl spec_step x xs = (x # xs) ! k
      \<and> (\<forall>j<length (x # xs). \<not> outranks ((x # xs) ! j) ((x # xs) ! k))
      \<and> (\<forall>j<k. outranks ((x # xs) ! k) ((x # xs) ! j))"
proof (induction xs rule: rev_induct)
  case Nil
  show ?case by (simp add: outranks_irrefl)
next
  case (snoc y ys)
  then obtain k where k: "k < length (x # ys)" and r: "foldl spec_step x ys = (x # ys) ! k"
    and mx: "\<forall>j<length (x # ys). \<not> outranks ((x # ys) ! j) ((x # ys) ! k)"
    and before: "\<forall>j<k. outranks ((x # ys) ! k) ((x # ys) ! j)"
    by blast
  have "foldl spec_step x (ys @ [y]) = spec_step ((x # ys) ! k) y"
    using r by simp
  moreover have "x # ys @ [y] = (x # ys) @ [y]" by simp
  ultimately show ?case
    using spec_step_first_max_snoc [OF k mx before, of y] by metis
qed

lemma ex_members_ranks:
  "map (\<lambda>i. (primary_bitrate i, primary_size i)) ex_members = [(5000, 10), (8000, 5), (8000, 5)]"
  "map (\<lambda>i. (primary_bitrate i, primary_size i)) ex_members_size =
     [(8000, 5), (8000, 7), (8000, 7), (7000, 100)]"
  by (simp_all add: ex_members_def ex_members_size_def entry_def source_def
      primary_bitrate_def primary_size_def)

text \<open>
  C1. For a non-empty list of members, \<open>getBestItemId\<close> is the left-to-right reduction that
  starts from the first member and replaces the running best iff the candidate's
  primary-source bitrate is strictly greater, or the bitrates are equal and its
  primary-source size is strictly greater. The result is therefore the member of lowest
  index among those of maximal (bitrate, size): no member outranks it and it outranks every
  member before it. The callback takes the candidate exactly when it outranks the running
  best, so on an exact tie of bitrate and size it keeps the earlier entry.
\<close>

theorem getBestItemId_left_reduction:
  "members \<noteq> [] \<Longrightarrow>
     getBestItemId members = Inr (ItemId (foldl spec_step (hd members) (tl members)))
     \<and> (\<exists>k<length members. getBestItemId members = Inr (ItemId (members ! k))
          \<and> (\<forall>j<length members. \<not> outranks (members ! j) (members ! k))
          \<and> (\<forall>j<k. outranks (members ! k) (members ! j)))
     \<and> pickBetter prev current = (if outranks current prev then current else prev)
     \<and> (primary_bitrate current = primary_bitrate prev \<and> primary_size current = primary_size prev
          \<longrightarrow> pickBetter prev current = prev)"
proof -
  assume "members \<noteq> []"
  then obtain x xs where m: "members = x # xs" by (cases members) auto
  have 1: "getBestItemId members = Inr (ItemId (foldl spec_step (hd members) (tl members)))"
    using m by (simp add: getBestItemId_Cons)
  have 2: "\<exists>k<length members. getBestItemId members = Inr (ItemId (members ! k))
          \<and> (\<forall>j<length members. \<not> outranks (members ! j) (members ! k))
          \<and> (\<forall>j<k. outranks (members ! k) (members ! j))"
    using foldl_spec_step_first_max [of x xs] unfolding m getBestItemId_Cons by metis
  have 3: "pickBetter prev current = (if outranks current prev then current else prev)"
    by (simp add: pickBetter_spec_step spec_step_def)
  have 4: "primary_bitrate current = primary_bitrate prev \<and> primary_size current = primary_size prev
          \<longrightarrow> pickBetter prev current = prev"
    by (simp add: 3 outranks_def)
  from 1 2 3 4 show ?thesis by blast
qed

text \<open>
  On the specification's example the reduction returns the id of the element at index 1.
  Among the members with bitrates 8000, 8000, 8000, 7000 and sizes 5, 7, 7, 100 the size
  decides: the result is again the element at index 1, the first of size 7.
\<close>

theorem getBestItemId_left_reduction_witness:
  "ex_members \<noteq> [] \<and> ex_members_size \<noteq> []
   \<and> map (\<lambda>i. (primary_bitrate i, primary_size i)) ex_members = [(5000, 10), (8000, 5), (8000, 5)]
   \<and> getBestItemId ex_members = Inr (ItemId (ex_members ! 1))
   \<and> ItemId (ex_members ! 1) = str ''b''
   \<and> map (\<lambda>i. (primary_bitrate i, primary_size i)) ex_members_size =
        [(8000, 5), (8000, 7), (8000, 7), (7000, 100)]
   \<and> getBestItemId ex_members_size = Inr (ItemId (ex_members_size ! 1))
   \<and> ItemId (ex_members_size ! 1) = str ''b''"
proof -
  have a: "getBestItemId ex_members = Inr (ItemId (ex_members ! 1))"
    using getBestItemId_left_reduction [of ex_members, THEN conjunct1]
    by (simp add: ex_members_def spec_step_def outranks_def primary_bitrate_def
        primary_size_def entry_def source_def)
  have b: "getBestItemId ex_members_size = Inr (ItemId (ex_members_size ! 1))"
    using getBestItemId_left_reduction [of ex_members_size, THEN conjunct1]
    by (simp add: ex_members_size_def spec_step_def outranks_def primary_bitrate_def
        primary_size_def entry_def source_def)
  show ?thesis
    using a b ex_members_ranks
    by (simp add: ex_members_def ex_members_size_def entry_def)
qed

text \<open>
  C5. \<open>getBestItemId\<close> returns an id, and does not raise, on every non-empty list of
  members (the TypeError of \<^verbatim>\<open>reduce\<close> is reached on the empty list only); on a
  single-element list it returns that element's id.
\<close>

theorem getBestItemId_total_on_nonempty:
  "(members \<noteq> [] \<longrightarrow> (\<exists>i. getBestItemId members = Inr i))
   \<and> getBestItemId [x] = Inr (ItemId x)
   \<and> getBestItemId [] = Inl TypeError"
proof (intro conjI impI)
  assume "members \<noteq> []"
  then obtain y ys where "members = y # ys" by (cases members) auto
  then show "\<exists>i. getBestItemId members = Inr i"
    by (simp add: getBestItemId_def)
next
  show "getBestItemId [x] = Inr (ItemId x)"
    by (simp add: getBestItemId_def)
next
  show "getBestItemId [] = Inl TypeError"
    by (simp add: getBestItemId_def)
qed

theorem getBestItemId_total_on_nonempty_witness:
  "ex_members \<noteq> [] \<and> (\<exists>i. getBestItemId ex_members = Inr i)
   \<and> getBestItemId [hd ex_members] = Inr (str ''a'')"
  using getBestItemId_total_on_nonempty [of ex_members "hd ex_members"]
  by (simp add: ex_members_def entry_def)

text \<open>
  C10. For a non-empty list of members, the id returned by \<open>getBestItemId\<close> is the id of
  one of the members.
\<close>

theorem getBestItemId_is_member:
  "members \<noteq> [] \<Longrightarrow> \<exists>x \<in> set members. getBestItemId members = Inr (ItemId x)"
proof -
  assume "members \<noteq> []"
  then obtain y ys where "members = y # ys" by (cases members) auto
  then show ?thesis using getBestItemId_mem [of y ys] by simp
qed

theorem getBestItemId_is_member_witness:
  "ex_members \<noteq> [] \<and> (\<exists>x \<in> set ex_members. getBestItemId ex_members = Inr (ItemId x))"
  using getBestItemId_is_member [of ex_members]
  by (simp add: ex_members_def)

section \<open>The ranking does not read the stream descriptors\<close>











section \<open>Properties of the grouping key\<close>

lemma in_az09_table: "in_az09 c = (c \<in> set (str ''abcdefghijklmnopqrstuvwxyz0123456789''))"
proof -
  have "str ''abcdefghijklmnopqrstuvwxyz0123456789'' = [97..<123] @ [48..<58]"
    by code_simp
  then have "set (str ''abcdefghijklmnopqrstuvwxyz0123456789'') = {97..<123} \<union> {48..<58}"
    by (simp only: set_append set_upt)
  then show ?thesis
    unfolding in_az09_def by (simp only: Un_iff atLeastLessThan_iff) arith
qed

lemma strip_non_az09_spec: "strip_non_az09 s = spec_keep s"
proof -
  have "in_az09 = (\<lambda>c. c \<in> set (str ''abcdefghijklmnopqrstuvwxyz0123456789''))"
    by (intro ext) (rule in_az09_table)
  then show ?thesis by (simp only: strip_non_az09_def spec_keep_def)
qed

lemma ascii_lower_table: "ascii_lower c = spec_lower c"
proof -
  have z: "zip (str ''ABCDEFGHIJKLMNOPQRSTUVWXYZ'') (str ''abcdefghijklmnopqrstuvwxyz'') =
          map (\<lambda>n. (n, n + 32)) [65..<91]"
    by code_simp
  have m: "map_of (map (\<lambda>n. (n, n + 32)) [65..<91]) c =
          (if c \<in> {65..<91} then Some (c + 32) else None)"
    by (simp only: map_of_map_restrict restrict_map_def set_upt comp_apply)
  have "spec_lower c = (if c \<in> {65..<91} then c + 32 else c)"
    unfolding spec_lower_def z m by (simp only: if_distrib [of "case_option c (\<lambda>l. l)"] option.case)
  also have "\<dots> = ascii_lower c"
    unfolding ascii_lower_def by (simp only: atLeastLessThan_iff) arith
  finally show ?thesis by (rule sym)
qed

lemma normalize_ascii:
  assumes "lowers_ascii toLowerCase" and "is_ascii t"
  shows "spec_keep (toLowerCase t) = spec_normalizedTitle t"
proof -
  have "toLowerCase t = map ascii_lower t"
    using assms by (simp add: lowers_ascii_def)
  moreover have "ascii_lower = spec_lower"
    by (intro ext) (rule ascii_lower_table)
  ultimately show ?thesis by (simp only: spec_normalizedTitle_def)
qed

lemma year_token_spec: "year_token y = spec_yearToken y"
  by (cases y) (simp_all add: year_token_def spec_yearToken_def)

lemma lower_from_ascii: "is_ascii s \<Longrightarrow> lower_from after s = map ascii_lower s"
  by (induction s arbitrary: after) (auto simp: is_ascii_def lower_unit_def ascii_lower_def)

lemma lowers_ascii_sample: "lowers_ascii toLowerCase_sample"
  by (simp add: lowers_ascii_def toLowerCase_sample_def lower_from_ascii)

text \<open>
  C2, as stated, fails on an entry that has no \<^verbatim>\<open>ProviderIds\<close> object: it has neither a
  TMDb nor an IMDb id, so the claim gives it the name key, but the code raises a TypeError.
\<close>

theorem group_key_without_ProviderIds_counterexample:
  "ProviderIds ex_no_ids = None \<and> Name ex_no_ids = str ''Bar''
   \<and> ProductionYear ex_no_ids = None
   \<and> group_key toLowerCase_sample ex_no_ids = Inl TypeError
   \<and> group_key toLowerCase_sample ex_no_ids \<noteq> Inr (str ''name-bar-0000'')"
  by (simp add: ex_no_ids_def group_key_def)

text \<open>
  C2, amended. For every entry that has a \<^verbatim>\<open>ProviderIds\<close> object, the key is derived by the
  first rule that matches: the TMDb id when it is present and non-empty; else the IMDb id
  when it is present and non-empty; else the name, lower-cased and with every character
  outside a-z and 0-9 deleted, followed by the release year, or by 0000 when the year is 0
  or missing. On an ASCII name the lower-casing is that of the letters A to Z.
\<close>

theorem group_key_first_match:
  "ProviderIds item = Some ids \<Longrightarrow>
     (Tmdb ids = Some t \<and> t \<noteq> [] \<longrightarrow> group_key toLowerCase item = Inr (str ''tmdb-'' @ t))
   \<and> (absent_or_empty (Tmdb ids) \<and> Imdb ids = Some m \<and> m \<noteq> []
        \<longrightarrow> group_key toLowerCase item = Inr (str ''imdb-'' @ m))
   \<and> (absent_or_empty (Tmdb ids) \<and> absent_or_empty (Imdb ids)
        \<longrightarrow> group_key toLowerCase item =
              Inr (str ''name-'' @ spec_keep (toLowerCase (Name item)) @ str ''-''
                     @ spec_yearToken (ProductionYear item)))
   \<and> (lowers_ascii toLowerCase \<and> is_ascii (Name item)
        \<longrightarrow> spec_keep (toLowerCase (Name item)) = spec_normalizedTitle (Name item))"
proof (intro conjI impI)
  assume "ProviderIds item = Some ids" and "Tmdb ids = Some t \<and> t \<noteq> []"
  then show "group_key toLowerCase item = Inr (str ''tmdb-'' @ t)"
    by (simp add: group_key_def)
next
  assume "ProviderIds item = Some ids"
    and "absent_or_empty (Tmdb ids) \<and> Imdb ids = Some m \<and> m \<noteq> []"
  then show "group_key toLowerCase item = Inr (str ''imdb-'' @ m)"
    by (auto simp: group_key_def absent_or_empty_def)
next
  assume p: "ProviderIds item = Some ids"
    and "absent_or_empty (Tmdb ids) \<and> absent_or_empty (Imdb ids)"
  then have "truthy_string (Tmdb ids) = None" and "truthy_string (Imdb ids) = None"
    by (auto simp: absent_or_empty_def)
  with p show "group_key toLowerCase item =
      Inr (str ''name-'' @ spec_keep (toLowerCase (Name item)) @ str ''-''
             @ spec_yearToken (ProductionYear item))"
    by (simp add: group_key_def strip_non_az09_spec year_token_spec)
next
  assume "lowers_ascii toLowerCase \<and> is_ascii (Name item)"
  then show "spec_keep (toLowerCase (Name item)) = spec_normalizedTitle (Name item)"
    by (simp add: normalize_ascii)
qed

lemma ex_keys_evaluated:
  "group_key toLowerCase_sample ex_tmdb = Inr (str ''tmdb-1'')"
  "group_key toLowerCase_sample ex_imdb = Inr (str ''imdb-tt7'')"
  "group_key toLowerCase_sample ex_spider2 = Inr (str ''name-spiderman-2002'')"
  "group_key toLowerCase_sample ex_year0 = Inr (str ''name-up-0000'')"
  "group_key toLowerCase_sample ex_noyear = Inr (str ''name-up-0000'')"
  "group_key toLowerCase_sample ex_kelvin = Inr (str ''name-k-0000'')"
  by (simp_all add: eval_defs ex_tmdb_def ex_imdb_def ex_spider2_def ex_year0_def
      ex_noyear_def ex_kelvin_def)

text \<open>
  One entry for each rule; Spider-Man and SpiderMan of the same year share a key, and so
  do the year 0 and the missing year; the Kelvin sign is lower-cased to k before the
  deletion.
\<close>

theorem group_key_first_match_witness:
  "ProviderIds ex_spider1 = Some \<lparr>Tmdb = None, Imdb = None\<rparr>
   \<and> lowers_ascii toLowerCase_sample \<and> is_ascii (Name ex_spider1)
   \<and> group_key toLowerCase_sample ex_spider1 = Inr (str ''name-spiderman-2002'')
   \<and> spec_normalizedTitle (Name ex_spider1) = str ''spiderman''
   \<and> group_key toLowerCase_sample ex_spider2 = Inr (str ''name-spiderman-2002'')
   \<and> group_key toLowerCase_sample ex_tmdb = Inr (str ''tmdb-1'')
   \<and> group_key toLowerCase_sample ex_imdb = Inr (str ''imdb-tt7'')
   \<and> group_key toLowerCase_sample ex_year0 = Inr (str ''name-up-0000'')
   \<and> group_key toLowerCase_sample ex_noyear = Inr (str ''name-up-0000'')
   \<and> group_key toLowerCase_sample ex_kelvin = Inr (str ''name-k-0000'')"
proof -
  have p: "ProviderIds ex_spider1 = Some \<lparr>Tmdb = None, Imdb = None\<rparr>"
    by (simp add: ex_spider1_def entry_def)
  have a: "absent_or_empty (Tmdb \<lparr>Tmdb = None, Imdb = None\<rparr>)
             \<and> absent_or_empty (Imdb \<lparr>Tmdb = None, Imdb = None\<rparr>)"
    by (simp add: absent_or_empty_def)
  have i: "is_ascii (Name ex_spider1)"
    by (simp add: is_ascii_def ex_spider1_def entry_def str_def)
  have l: "lowers_ascii toLowerCase_sample \<and> is_ascii (Name ex_spider1)"
    using lowers_ascii_sample i by simp
  note t = group_key_first_match [OF p, where toLowerCase = toLowerCase_sample]
  note name_rule = t [THEN conjunct2, THEN conjunct2, THEN conjunct1, rule_format, OF a]
  note ascii_rule = t [THEN conjunct2, THEN conjunct2, THEN conjunct2, rule_format, OF l]
  have n: "spec_normalizedTitle (Name ex_spider1) = str ''spiderman''"
    by (simp add: spec_normalizedTitle_def spec_keep_def spec_lower_def ex_spider1_def
        entry_def str_def)
  have e: "str ''name-'' @ str ''spiderman'' @ str ''-'' @ spec_yearToken (ProductionYear ex_spider1)
             = str ''name-spiderman-2002''"
    by (simp add: spec_yearToken_def number_to_string_def digits.simps ex_spider1_def
        entry_def str_def)
  have k: "group_key toLowerCase_sample ex_spider1 = Inr (str ''name-spiderman-2002'')"
    by (simp only: name_rule ascii_rule n e)
  show ?thesis
    by (rule conjI [OF p conjI [OF lowers_ascii_sample conjI [OF i conjI [OF k conjI [OF n
          conjI [OF ex_keys_evaluated(3) conjI [OF ex_keys_evaluated(1)
          conjI [OF ex_keys_evaluated(2) conjI [OF ex_keys_evaluated(4)
          conjI [OF ex_keys_evaluated(5) ex_keys_evaluated(6)]]]]]]]]]])
qed

section \<open>Properties of the partition\<close>

lemma group_key_present:
  "ProviderIds item = Some ids \<Longrightarrow> group_key toLowerCase item = Inr (key_of toLowerCase item)"
  by (simp add: key_of_def group_key_def Let_def split: option.splits)

lemma group_key_absent: "ProviderIds item = None \<Longrightarrow> group_key toLowerCase item = Inl TypeError"
  by (simp add: group_key_def)

lemma group_key_eq_Inr:
  "group_key toLowerCase item = Inr k \<longleftrightarrow> ProviderIds item \<noteq> None \<and> key_of toLowerCase item = k"
proof (cases "ProviderIds item")
  case None
  then show ?thesis by (simp add: group_key_absent)
next
  case (Some ids)
  then show ?thesis by (auto simp: group_key_present)
qed

lemma add_item_present:
  "ProviderIds item \<noteq> None \<Longrightarrow>
     add_item toLowerCase groups item = Inr (add_keyed toLowerCase groups item)"
  by (auto simp: add_item_def add_keyed_def group_key_present Let_def)

lemma add_item_absent:
  "ProviderIds item = None \<Longrightarrow> add_item toLowerCase groups item = Inl TypeError"
  by (simp add: add_item_def group_key_absent)

lemma forEach_add_eq:
  "forEach_add toLowerCase groups xs =
     (if \<forall>i \<in> set xs. ProviderIds i \<noteq> None
      then Inr (foldl (add_keyed toLowerCase) groups xs) else Inl TypeError)"
proof (induction xs arbitrary: groups)
  case Nil
  show ?case by simp
next
  case (Cons x xs)
  show ?case
  proof (cases "ProviderIds x")
    case None
    then show ?thesis by (simp add: add_item_absent)
  next
    case (Some ids)
    then show ?thesis by (simp add: add_item_present Cons.IH)
  qed
qed

lemma groupItems_eq:
  "groupItems toLowerCase xs =
     (if \<forall>i \<in> set xs. ProviderIds i \<noteq> None
      then Inr (keyed_groups toLowerCase xs) else Inl TypeError)"
  by (simp only: groupItems_def keyed_groups_def forEach_add_eq)

lemma duplicateGroups_eq:
  "duplicateGroups localeCompare toLowerCase xs searchTerm =
     (if \<forall>i \<in> set xs. ProviderIds i \<noteq> None
      then Inr (array_sort (\<lambda>a b. localeCompare (title a) (title b))
                  (searchFilter toLowerCase searchTerm
                     (removeSingles (keyed_groups toLowerCase xs))))
      else Inl TypeError)"
  by (simp add: duplicateGroups_def groupItems_eq Let_def)

lemma map_of_obj_set: "map_of (obj_set k v ps) = (map_of ps)(k \<mapsto> v)"
  by (induction ps) auto

lemma keys_obj_set:
  "map fst (obj_set k v ps) = (if k \<in> fst ` set ps then map fst ps else map fst ps @ [k])"
  by (induction ps) auto

lemma distinct_obj_set: "distinct (map fst ps) \<Longrightarrow> distinct (map fst (obj_set k v ps))"
  by (simp add: keys_obj_set)

lemma keyed_groups_snoc:
  "keyed_groups lc (xs @ [x]) = add_keyed lc (keyed_groups lc xs) x"
  by (simp add: keyed_groups_def)

lemma distinct_keyed_groups: "distinct (map fst (keyed_groups lc xs))"
proof (induction xs rule: rev_induct)
  case Nil
  show ?case by (simp add: keyed_groups_def)
next
  case (snoc x xs)
  then show ?case
    by (simp add: keyed_groups_snoc add_keyed_def Let_def distinct_obj_set)
qed

lemma group_of_key_snoc_same:
  assumes "key_of lc x = k"
  shows "group_of_key lc k (xs @ [x]) =
     (if k \<in> key_of lc ` set xs
      then (group_of_key lc k xs)\<lparr>items := items (group_of_key lc k xs) @ [x]\<rparr>
      else \<lparr>group_id = k, title = Name x, year = ProductionYear x, items = [x]\<rparr>)"
proof (cases "k \<in> key_of lc ` set xs")
  case True
  then have "filter (\<lambda>i. key_of lc i = k) xs \<noteq> []"
    by (auto simp: filter_empty_conv)
  with assms True show ?thesis
    by (simp add: group_of_key_def Let_def)
next
  case False
  then have "filter (\<lambda>i. key_of lc i = k) xs = []"
    by (auto simp: filter_empty_conv)
  with assms False show ?thesis
    by (simp add: group_of_key_def Let_def)
qed

lemma group_of_key_snoc_other:
  "key_of lc x \<noteq> k \<Longrightarrow> group_of_key lc k (xs @ [x]) = group_of_key lc k xs"
  by (simp add: group_of_key_def)

text \<open>After the loop, the object holds exactly the keys of the catalog, each with its group.\<close>

lemma map_of_keyed_groups:
  "map_of (keyed_groups lc xs) k =
     (if k \<in> key_of lc ` set xs then Some (group_of_key lc k xs) else None)"
proof (induction xs rule: rev_induct)
  case Nil
  show ?case by (simp add: keyed_groups_def)
next
  case (snoc x xs)
  show ?case
  proof (cases "key_of lc x = k")
    case True
    then show ?thesis
      using snoc group_of_key_snoc_same [OF True, of xs]
      by (simp add: keyed_groups_snoc add_keyed_def Let_def map_of_obj_set)
  next
    case False
    then show ?thesis
      using snoc group_of_key_snoc_other [OF False, of xs]
      by (auto simp: keyed_groups_snoc add_keyed_def Let_def map_of_obj_set)
  qed
qed

lemma set_keyed_groups:
  "set (keyed_groups lc xs) = (\<lambda>k. (k, group_of_key lc k xs)) ` key_of lc ` set xs"
proof -
  have "(k, g) \<in> set (keyed_groups lc xs) \<longleftrightarrow> k \<in> key_of lc ` set xs \<and> g = group_of_key lc k xs"
    for k g
    using map_of_eq_Some_iff [OF distinct_keyed_groups, of lc xs k g]
    by (auto simp: map_of_keyed_groups split: if_splits)
  then show ?thesis by auto
qed

lemma set_Object_values_keyed_groups:
  "set (Object_values (keyed_groups lc xs)) = (\<lambda>k. group_of_key lc k xs) ` key_of lc ` set xs"
  by (auto simp: Object_values_def set_keyed_groups image_iff)

lemma Object_values_keyed_groups:
  "Object_values (keyed_groups lc xs) =
     map (\<lambda>k. group_of_key lc k xs) (map fst (keyed_groups lc xs))"
proof -
  have "\<forall>p \<in> set (keyed_groups lc xs). snd p = group_of_key lc (fst p) xs"
    by (auto simp: set_keyed_groups)
  then show ?thesis
    by (simp add: Object_values_def)
qed

lemma group_id_group_of_key: "group_id (group_of_key lc k xs) = k"
  by (simp add: group_of_key_def Let_def)

lemma items_group_of_key: "items (group_of_key lc k xs) = filter (\<lambda>i. key_of lc i = k) xs"
  by (simp add: group_of_key_def Let_def)

lemma distinct_group_ids: "distinct (map group_id (Object_values (keyed_groups lc xs)))"
proof -
  have "map group_id (Object_values (keyed_groups lc xs)) = map fst (keyed_groups lc xs)"
    by (simp add: Object_values_keyed_groups group_id_group_of_key o_def)
  then show ?thesis by (simp add: distinct_keyed_groups)
qed

lemma find_first_member:
  "k \<in> key_of lc ` set xs \<Longrightarrow>
     find (\<lambda>i. key_of lc i = k) xs = Some (hd (filter (\<lambda>i. key_of lc i = k) xs))"
  by (induction xs) auto

lemma partition_classes_perm:
  assumes "mset xs = mset ys"
  shows "(\<lambda>g. (group_id g, mset (items g))) ` set (Object_values (keyed_groups lc xs)) =
         (\<lambda>g. (group_id g, mset (items g))) ` set (Object_values (keyed_groups lc ys))"
proof -
  have s: "set xs = set ys" using assms by (rule mset_eq_setD)
  have "(\<lambda>g. (group_id g, mset (items g))) ` set (Object_values (keyed_groups lc zs)) =
        (\<lambda>k. (k, mset (filter (\<lambda>i. key_of lc i = k) zs))) ` key_of lc ` set zs" for zs
    by (simp add: set_Object_values_keyed_groups image_image group_id_group_of_key
        items_group_of_key)
  then show ?thesis using assms by (simp add: s)
qed

text \<open>On a catalog whose entries all have \<^verbatim>\<open>ProviderIds\<close>, the two readings of the key agree.\<close>

lemma filter_group_key:
  "\<forall>i \<in> set xs. ProviderIds i \<noteq> None \<Longrightarrow>
     filter (\<lambda>i. group_key lc i = Inr k) xs = filter (\<lambda>i. key_of lc i = k) xs"
  by (rule filter_cong) (auto simp: group_key_eq_Inr)

lemma find_group_key:
  "\<forall>i \<in> set xs. ProviderIds i \<noteq> None \<Longrightarrow>
     find (\<lambda>i. group_key lc i = Inr k) xs = find (\<lambda>i. key_of lc i = k) xs"
  by (rule find_cong) (auto simp: group_key_eq_Inr)

lemma image_group_key:
  "\<forall>i \<in> set xs. ProviderIds i \<noteq> None \<Longrightarrow> group_key lc ` set xs = Inr ` key_of lc ` set xs"
proof -
  assume a: "\<forall>i \<in> set xs. ProviderIds i \<noteq> None"
  have "group_key lc i = Inr (key_of lc i)" if "i \<in> set xs" for i
    using a that by (simp add: group_key_eq_Inr)
  then have "group_key lc ` set xs = (\<lambda>i. Inr (key_of lc i)) ` set xs"
    by (intro image_cong) simp_all
  then show ?thesis by (simp only: image_image)
qed

section \<open>Properties of the sort and of the search filter\<close>

lemma mset_insert_sorted: "mset (insert_sorted cmp x ys) = add_mset x (mset ys)"
  by (induction ys) auto

lemma mset_array_sort: "mset (array_sort cmp xs) = mset xs"
  by (induction xs) (auto simp: mset_insert_sorted)

lemma set_insert_sorted: "set (insert_sorted cmp x ys) = insert x (set ys)"
  using mset_insert_sorted [of cmp x ys] by (metis set_mset_add_mset_insert set_mset_mset)

lemma set_array_sort: "set (array_sort cmp xs) = set xs"
  using mset_array_sort [of cmp xs] by (metis set_mset_mset)

lemma consistent_total: "consistent cmp \<Longrightarrow> \<not> cmp a b \<le> 0 \<Longrightarrow> cmp b a \<le> 0"
  unfolding consistent_def by (metis not_le order_less_imp_le)

lemma consistent_trans:
  "consistent cmp \<Longrightarrow> cmp a b \<le> 0 \<Longrightarrow> cmp b c \<le> 0 \<Longrightarrow> cmp a c \<le> 0"
  unfolding consistent_def by blast

lemma consistent_sym0: "consistent cmp \<Longrightarrow> cmp a b = 0 \<Longrightarrow> cmp b a = 0"
  unfolding consistent_def by (metis less_irrefl linorder_neqE_linordered_idom)

lemma consistent_on_titles:
  "consistent localeCompare \<Longrightarrow> consistent (\<lambda>a b. localeCompare (title a) (title b))"
  unfolding consistent_def by blast

lemma sorted_insert_sorted:
  assumes c: "consistent cmp"
  shows "sorted_wrt (\<lambda>a b. cmp a b \<le> 0) ys \<Longrightarrow>
         sorted_wrt (\<lambda>a b. cmp a b \<le> 0) (insert_sorted cmp x ys)"
proof (induction ys)
  case Nil
  show ?case by simp
next
  case (Cons y ys)
  show ?case
  proof (cases "cmp x y \<le> 0")
    case True
    have "cmp x z \<le> 0" if "z \<in> set ys" for z
      using Cons.prems that True consistent_trans [OF c, of x y z] by simp
    with True Cons.prems show ?thesis by simp
  next
    case False
    then have "cmp y x \<le> 0" by (rule consistent_total [OF c])
    with False Cons show ?thesis by (simp add: set_insert_sorted)
  qed
qed

lemma sorted_array_sort:
  "consistent cmp \<Longrightarrow> sorted_wrt (\<lambda>a b. cmp a b \<le> 0) (array_sort cmp xs)"
  by (induction xs) (simp_all add: sorted_insert_sorted)

text \<open>
  Stability: the elements of a class whose members do not follow one another keep their
  relative order.
\<close>

lemma filter_insert_sorted:
  assumes "P x \<Longrightarrow> \<forall>y \<in> set ys. P y \<longrightarrow> cmp x y \<le> 0"
  shows "filter P (insert_sorted cmp x ys) = filter P (x # ys)"
  using assms by (induction ys) auto

lemma filter_array_sort:
  assumes "\<And>x y. P x \<Longrightarrow> P y \<Longrightarrow> cmp x y \<le> 0"
  shows "filter P (array_sort cmp xs) = filter P xs"
proof (induction xs)
  case Nil
  show ?case by simp
next
  case (Cons x xs)
  have "filter P (insert_sorted cmp x (array_sort cmp xs)) = filter P (x # array_sort cmp xs)"
    by (rule filter_insert_sorted) (simp add: assms)
  with Cons show ?case by simp
qed

lemma ties_keep_order:
  assumes c: "consistent localeCompare"
  shows "filter (\<lambda>g. localeCompare (title g) t = 0)
           (array_sort (\<lambda>a b. localeCompare (title a) (title b)) ds)
         = filter (\<lambda>g. localeCompare (title g) t = 0) (ds :: DuplicateGroup list)"
proof -
  have tie: "localeCompare (title x) (title y) \<le> 0"
    if "localeCompare (title x) t = 0" and "localeCompare (title y) t = 0"
    for x y :: DuplicateGroup
  proof -
    from that have "localeCompare (title x) t \<le> 0" and "localeCompare t (title y) \<le> 0"
      using consistent_sym0 [OF c, of "title y" t] by simp_all
    then show ?thesis by (rule consistent_trans [OF c])
  qed
  show ?thesis
    using filter_array_sort [where P = "\<lambda>g. localeCompare (title g) t = 0"
        and cmp = "\<lambda>a b. localeCompare (title a) (title b)" and xs = ds] tie
    by blast
qed

lemma startsWith_iff: "startsWith s t \<longleftrightarrow> (\<exists>b. s = t @ b)"
  by (induction s t rule: startsWith.induct) auto

lemma str_includes_iff: "str_includes s t \<longleftrightarrow> contains s t"
proof (induction s)
  case Nil
  show ?case by (simp add: contains_def)
next
  case (Cons c s)
  have "(\<exists>a b. c # s = a @ t @ b) \<longleftrightarrow> (\<exists>b. c # s = t @ b) \<or> (\<exists>a b. s = a @ t @ b)"
    by (auto simp: Cons_eq_append_conv)
  with Cons show ?case by (simp add: startsWith_iff contains_def del: startsWith.simps)
qed

text \<open>
  Where the lower-casing is a map over the code units, a string contains another after
  lower-casing iff it has it as a case-insensitive substring.
\<close>

lemma ci_substring_map: "ci_substring f t s \<longleftrightarrow> (\<exists>a m b. s = a @ m @ b \<and> map f m = map f t)"
proof -
  have "(length m = length t \<and> (\<forall>i < length t. f (m ! i) = f (t ! i))) \<longleftrightarrow> map f m = map f t"
    for m
    by (auto simp: list_eq_iff_nth_eq)
  then show ?thesis unfolding ci_substring_def by simp
qed

lemma contains_map_iff: "contains (map f s) (map f t) \<longleftrightarrow> ci_substring f t s"
proof
  assume "contains (map f s) (map f t)"
  then obtain a b where "map f s = a @ map f t @ b"
    unfolding contains_def by blast
  then obtain a' r where s: "s = a' @ r" and "map f r = map f t @ b"
    by (metis map_eq_append_conv)
  then obtain m b' where "r = m @ b'" and "map f m = map f t"
    by (metis map_eq_append_conv)
  with s show "ci_substring f t s"
    unfolding ci_substring_map by blast
next
  assume "ci_substring f t s"
  then obtain a m b where "s = a @ m @ b" and "map f m = map f t"
    unfolding ci_substring_map by blast
  then have "map f s = map f a @ map f t @ map f b" by simp
  then show "contains (map f s) (map f t)"
    unfolding contains_def by blast
qed

lemma searchFilter_eq:
  "searchFilter toLowerCase searchTerm ds =
     filter (\<lambda>g. searchTerm = [] \<or> contains (toLowerCase (title g)) (toLowerCase searchTerm)) ds"
proof (cases "searchTerm = []")
  case True
  then show ?thesis by (simp add: searchFilter_def)
next
  case False
  then show ?thesis by (simp add: searchFilter_def str_includes_iff Let_def)
qed

lemma set_searchFilter_subset: "set (searchFilter toLowerCase searchTerm ds) \<subseteq> set ds"
  by (auto simp: searchFilter_eq)

lemma set_pipeline:
  "set (array_sort cmp (searchFilter toLowerCase searchTerm (removeSingles groups)))
     \<subseteq> {g \<in> set (Object_values groups). 1 < length (items g)}"
  using set_searchFilter_subset [of toLowerCase searchTerm "removeSingles groups"]
  by (auto simp: set_array_sort removeSingles_def)

lemma set_pipeline_no_term:
  "set (array_sort cmp (searchFilter toLowerCase [] (removeSingles groups)))
     = {g \<in> set (Object_values groups). 1 < length (items g)}"
  by (auto simp: set_array_sort removeSingles_def searchFilter_def)

lemma classes_pipeline_no_term:
  "(\<lambda>g. (group_id g, mset (items g))) `
      set (array_sort cmp (searchFilter toLowerCase [] (removeSingles groups))) =
     {p \<in> (\<lambda>g. (group_id g, mset (items g))) ` set (Object_values groups). 1 < size (snd p)}"
  by (auto simp: set_pipeline_no_term)

lemma compare_units_antisym: "(compare_units a b < 0) = (0 < compare_units b a)"
  by (induction a b rule: compare_units.induct) auto

lemma compare_units_trans:
  "compare_units a b \<le> 0 \<Longrightarrow> compare_units b c \<le> 0 \<Longrightarrow> compare_units a c \<le> 0"
proof (induction a c arbitrary: b rule: compare_units.induct)
  case 1
  then show ?case by simp
next
  case (2 d t)
  then show ?case by simp
next
  case (3 c s)
  then show ?case by (cases b) (auto split: if_splits)
next
  case (4 x s z t)
  then show ?case by (cases b) (auto split: if_splits)
qed

lemma consistent_compare_units: "consistent compare_units"
  unfolding consistent_def using compare_units_antisym compare_units_trans by blast

subsection \<open>The example catalogs, evaluated\<close>

lemma ex_catalog_partition:
  "map_sum id (map summary \<circ> Object_values) (groupItems toLowerCase_sample ex_catalog) =
     Inr [(str ''tmdb-1'', str ''Foo'', [str ''1'', str ''3'']),
          (str ''imdb-tt9'', str ''Barbarian'', [str ''2'', str ''5'']),
          (str ''name-bar-0000'', str ''Bar'', [str ''4'']),
          (str ''name-foo-2011'', str ''Foo'', [str ''6'', str ''7''])]"
  by (simp add: eval_defs ex_catalog_def)

lemma ex_catalog_rev_partition:
  "map_sum id (map summary \<circ> Object_values) (groupItems toLowerCase_sample (rev ex_catalog)) =
     Inr [(str ''name-foo-2011'', str ''FOO!'', [str ''7'', str ''6'']),
          (str ''imdb-tt9'', str ''barbarian'', [str ''5'', str ''2'']),
          (str ''name-bar-0000'', str ''Bar'', [str ''4'']),
          (str ''tmdb-1'', str ''Foo'', [str ''3'', str ''1''])]"
  by (simp add: eval_defs ex_catalog_def)

lemma ex_catalog_singles_removed:
  "map_sum id (map summary \<circ> removeSingles) (groupItems toLowerCase_sample ex_catalog) =
     Inr [(str ''tmdb-1'', str ''Foo'', [str ''1'', str ''3'']),
          (str ''imdb-tt9'', str ''Barbarian'', [str ''2'', str ''5'']),
          (str ''name-foo-2011'', str ''Foo'', [str ''6'', str ''7''])]"
  by (simp add: eval_defs ex_catalog_def)

lemma ex_catalog_all:
  "map_sum id (map summary) (duplicateGroups compare_units toLowerCase_sample ex_catalog []) =
     Inr [(str ''imdb-tt9'', str ''Barbarian'', [str ''2'', str ''5'']),
          (str ''tmdb-1'', str ''Foo'', [str ''1'', str ''3'']),
          (str ''name-foo-2011'', str ''Foo'', [str ''6'', str ''7''])]"
  by (simp add: eval_defs ex_catalog_def)

lemma ex_catalog_bar:
  "map_sum id (map summary)
     (duplicateGroups compare_units toLowerCase_sample ex_catalog (str ''bar'')) =
     Inr [(str ''imdb-tt9'', str ''Barbarian'', [str ''2'', str ''5''])]"
  by (simp add: eval_defs ex_catalog_def)

lemma ex_ecole_kept:
  "map_sum id (map summary)
     (duplicateGroups compare_units toLowerCase_sample ex_ecole_catalog ex_ecole_term) =
     Inr [(str ''tmdb-5'', 0xC9 # str ''COLE'', [str ''1'', str ''2''])]"
  by (simp add: eval_defs ex_ecole_catalog_def ex_ecole_term_def)

lemma ex_catalog_has_ids: "\<forall>i \<in> set ex_catalog. ProviderIds i \<noteq> None"
  by (simp add: ex_catalog_def entry_def)

section \<open>Claims about the grouping\<close>

text \<open>
  C3. For a catalog and any permutation of it, the partition has the same classes: the same
  keys, each with the same members (as a multiset, hence as a set). The same holds for the
  groups that the pipeline returns when no search term is given. Within one run, the members
  of a group are the entries of its key in catalog order, and its title and year are those
  of the first entry of that key. No two groups share a key, and every key of the catalog has
  a group. When an entry lacks \<^verbatim>\<open>ProviderIds\<close>, the loop raises in either order.
\<close>

theorem groupItems_classes_order_independent:
  "mset xs = mset ys \<Longrightarrow>
     (if \<forall>i \<in> set xs. ProviderIds i \<noteq> None
      then \<exists>gx gy dx dy.
             groupItems toLowerCase xs = Inr gx \<and> groupItems toLowerCase ys = Inr gy
           \<and> (\<lambda>g. (group_id g, mset (items g))) ` set (Object_values gx) =
               (\<lambda>g. (group_id g, mset (items g))) ` set (Object_values gy)
           \<and> duplicateGroups localeCompare toLowerCase xs [] = Inr dx
           \<and> duplicateGroups localeCompare toLowerCase ys [] = Inr dy
           \<and> (\<lambda>g. (group_id g, mset (items g))) ` set dx =
               (\<lambda>g. (group_id g, mset (items g))) ` set dy
           \<and> (\<forall>g \<in> set (Object_values gx).
                 items g = filter (\<lambda>i. group_key toLowerCase i = Inr (group_id g)) xs
                 \<and> (\<exists>first. find (\<lambda>i. group_key toLowerCase i = Inr (group_id g)) xs = Some first
                       \<and> title g = Name first \<and> year g = ProductionYear first))
           \<and> distinct (map group_id (Object_values gx))
           \<and> Inr ` group_id ` set (Object_values gx) = group_key toLowerCase ` set xs
      else groupItems toLowerCase xs = Inl TypeError
           \<and> groupItems toLowerCase ys = Inl TypeError)"
proof -
  assume p: "mset xs = mset ys"
  then have s: "set xs = set ys" by (rule mset_eq_setD)
  let ?lc = toLowerCase
  let ?cmp = "\<lambda>a b. localeCompare (title a) (title b)"
  show ?thesis
  proof (cases "\<forall>i \<in> set xs. ProviderIds i \<noteq> None")
    case False
    then have "\<not> (\<forall>i \<in> set ys. ProviderIds i \<noteq> None)" using s by simp
    with False have "groupItems ?lc xs = Inl TypeError \<and> groupItems ?lc ys = Inl TypeError"
      by (simp only: groupItems_eq if_False)
    then show ?thesis by (simp only: if_not_P [OF False])
  next
    case True
    then have ty: "\<forall>i \<in> set ys. ProviderIds i \<noteq> None" using s by simp
    let ?gx = "keyed_groups ?lc xs" and ?gy = "keyed_groups ?lc ys"
    let ?dx = "array_sort ?cmp (searchFilter ?lc [] (removeSingles ?gx))"
    let ?dy = "array_sort ?cmp (searchFilter ?lc [] (removeSingles ?gy))"
    have 1: "groupItems ?lc xs = Inr ?gx" and 2: "groupItems ?lc ys = Inr ?gy"
      using True ty by (simp_all add: groupItems_eq)
    have 3: "(\<lambda>g. (group_id g, mset (items g))) ` set (Object_values ?gx) =
             (\<lambda>g. (group_id g, mset (items g))) ` set (Object_values ?gy)"
      using p by (rule partition_classes_perm)
    have 4: "duplicateGroups localeCompare ?lc xs [] = Inr ?dx"
      and 5: "duplicateGroups localeCompare ?lc ys [] = Inr ?dy"
      using True ty by (simp_all add: duplicateGroups_eq)
    have 6: "(\<lambda>g. (group_id g, mset (items g))) ` set ?dx =
             (\<lambda>g. (group_id g, mset (items g))) ` set ?dy"
      unfolding classes_pipeline_no_term 3 by (rule refl)
    have 7: "\<forall>g \<in> set (Object_values ?gx).
                 items g = filter (\<lambda>i. group_key ?lc i = Inr (group_id g)) xs
                 \<and> (\<exists>first. find (\<lambda>i. group_key ?lc i = Inr (group_id g)) xs = Some first
                       \<and> title g = Name first \<and> year g = ProductionYear first)"
    proof
      fix g assume "g \<in> set (Object_values ?gx)"
      then obtain k where k: "k \<in> key_of ?lc ` set xs" and g: "g = group_of_key ?lc k xs"
        by (auto simp: set_Object_values_keyed_groups)
      have a: "items g = filter (\<lambda>i. group_key ?lc i = Inr (group_id g)) xs"
        by (simp add: g group_id_group_of_key items_group_of_key filter_group_key [OF True])
      have "find (\<lambda>i. key_of ?lc i = k) xs = Some (hd (filter (\<lambda>i. key_of ?lc i = k) xs))"
        using k by (rule find_first_member)
      then have b: "\<exists>first. find (\<lambda>i. group_key ?lc i = Inr (group_id g)) xs = Some first
                       \<and> title g = Name first \<and> year g = ProductionYear first"
        by (simp add: g group_id_group_of_key find_group_key [OF True])
           (simp add: group_of_key_def Let_def)
      from a b show "items g = filter (\<lambda>i. group_key ?lc i = Inr (group_id g)) xs
                 \<and> (\<exists>first. find (\<lambda>i. group_key ?lc i = Inr (group_id g)) xs = Some first
                       \<and> title g = Name first \<and> year g = ProductionYear first)"
        by (rule conjI)
    qed
    have 8: "distinct (map group_id (Object_values ?gx))"
      by (rule distinct_group_ids)
    have 9: "Inr ` group_id ` set (Object_values ?gx) = group_key ?lc ` set xs"
      by (simp add: set_Object_values_keyed_groups image_image group_id_group_of_key
          image_group_key [OF True])
    from 1 2 3 4 5 6 7 8 9 have "\<exists>gx gy dx dy.
             groupItems ?lc xs = Inr gx \<and> groupItems ?lc ys = Inr gy
           \<and> (\<lambda>g. (group_id g, mset (items g))) ` set (Object_values gx) =
               (\<lambda>g. (group_id g, mset (items g))) ` set (Object_values gy)
           \<and> duplicateGroups localeCompare ?lc xs [] = Inr dx
           \<and> duplicateGroups localeCompare ?lc ys [] = Inr dy
           \<and> (\<lambda>g. (group_id g, mset (items g))) ` set dx =
               (\<lambda>g. (group_id g, mset (items g))) ` set dy
           \<and> (\<forall>g \<in> set (Object_values gx).
                 items g = filter (\<lambda>i. group_key ?lc i = Inr (group_id g)) xs
                 \<and> (\<exists>first. find (\<lambda>i. group_key ?lc i = Inr (group_id g)) xs = Some first
                       \<and> title g = Name first \<and> year g = ProductionYear first))
           \<and> distinct (map group_id (Object_values gx))
           \<and> Inr ` group_id ` set (Object_values gx) = group_key ?lc ` set xs"
      by (intro exI conjI)
    then show ?thesis by (simp only: if_P [OF True])
  qed
qed

text \<open>
  The example catalog and its reverse: the same classes, the members of each group in the
  order of the run, the title from the first entry of the run.
\<close>

theorem groupItems_classes_order_independent_witness:
  "mset ex_catalog = mset (rev ex_catalog)
   \<and> (\<exists>gx gy. groupItems toLowerCase_sample ex_catalog = Inr gx
         \<and> groupItems toLowerCase_sample (rev ex_catalog) = Inr gy
         \<and> (\<lambda>g. (group_id g, mset (items g))) ` set (Object_values gx) =
             (\<lambda>g. (group_id g, mset (items g))) ` set (Object_values gy))
   \<and> map_sum id (map summary \<circ> Object_values) (groupItems toLowerCase_sample ex_catalog) =
       Inr [(str ''tmdb-1'', str ''Foo'', [str ''1'', str ''3'']),
            (str ''imdb-tt9'', str ''Barbarian'', [str ''2'', str ''5'']),
            (str ''name-bar-0000'', str ''Bar'', [str ''4'']),
            (str ''name-foo-2011'', str ''Foo'', [str ''6'', str ''7''])]
   \<and> map_sum id (map summary \<circ> Object_values) (groupItems toLowerCase_sample (rev ex_catalog)) =
       Inr [(str ''name-foo-2011'', str ''FOO!'', [str ''7'', str ''6'']),
            (str ''imdb-tt9'', str ''barbarian'', [str ''5'', str ''2'']),
            (str ''name-bar-0000'', str ''Bar'', [str ''4'']),
            (str ''tmdb-1'', str ''Foo'', [str ''3'', str ''1''])]"
proof -
  have p: "mset ex_catalog = mset (rev ex_catalog)" by simp
  note t = groupItems_classes_order_independent
      [OF p, where toLowerCase = toLowerCase_sample and localeCompare = compare_units,
        unfolded if_P [OF ex_catalog_has_ids]]
  from t have c: "\<exists>gx gy. groupItems toLowerCase_sample ex_catalog = Inr gx
         \<and> groupItems toLowerCase_sample (rev ex_catalog) = Inr gy
         \<and> (\<lambda>g. (group_id g, mset (items g))) ` set (Object_values gx) =
             (\<lambda>g. (group_id g, mset (items g))) ` set (Object_values gy)"
    by (elim exE conjE) (intro exI conjI; assumption)
  show ?thesis
    by (rule conjI [OF p conjI [OF c
          conjI [OF ex_catalog_partition ex_catalog_rev_partition]]])
qed

text \<open>
  C4. Every group that the pipeline returns has more than one member, namely all the
  catalog entries of its key: groups of one member are dropped right after the partition,
  before the search filter and the sort. The pipeline returns its groups whenever every
  entry has \<^verbatim>\<open>ProviderIds\<close>.
\<close>

theorem duplicateGroups_no_singletons:
  "(duplicateGroups localeCompare toLowerCase all_items searchTerm = Inr out \<longrightarrow>
      (\<exists>groups. groupItems toLowerCase all_items = Inr groups
         \<and> out = array_sort (\<lambda>a b. localeCompare (title a) (title b))
                   (searchFilter toLowerCase searchTerm
                      (filter (\<lambda>g. 1 < length (items g)) (Object_values groups))))
      \<and> (\<forall>g \<in> set out.
            1 < length (items g)
            \<and> items g = filter (\<lambda>i. group_key toLowerCase i = Inr (group_id g)) all_items))
   \<and> ((\<forall>i \<in> set all_items. ProviderIds i \<noteq> None) \<longrightarrow>
        (\<exists>out. duplicateGroups localeCompare toLowerCase all_items searchTerm = Inr out))"
proof (intro conjI impI)
  assume d: "duplicateGroups localeCompare toLowerCase all_items searchTerm = Inr out"
  then have ids: "\<forall>i \<in> set all_items. ProviderIds i \<noteq> None"
    by (simp add: duplicateGroups_eq split: if_splits)
  let ?groups = "keyed_groups toLowerCase all_items"
  have out: "out = array_sort (\<lambda>a b. localeCompare (title a) (title b))
                   (searchFilter toLowerCase searchTerm (removeSingles ?groups))"
    using d ids by (simp add: duplicateGroups_eq)
  have "groupItems toLowerCase all_items = Inr ?groups"
    using ids by (simp add: groupItems_eq)
  with out show "\<exists>groups. groupItems toLowerCase all_items = Inr groups
         \<and> out = array_sort (\<lambda>a b. localeCompare (title a) (title b))
                   (searchFilter toLowerCase searchTerm
                      (filter (\<lambda>g. 1 < length (items g)) (Object_values groups)))"
    by (auto simp: removeSingles_def)
  show "\<forall>g \<in> set out.
            1 < length (items g)
            \<and> items g = filter (\<lambda>i. group_key toLowerCase i = Inr (group_id g)) all_items"
  proof
    fix g assume "g \<in> set out"
    then have g: "g \<in> set (Object_values ?groups)" and l: "1 < length (items g)"
      using set_pipeline [of "\<lambda>a b. localeCompare (title a) (title b)" toLowerCase searchTerm ?groups]
      unfolding out by auto
    from g obtain k where "g = group_of_key toLowerCase k all_items"
      by (auto simp: set_Object_values_keyed_groups)
    then have "items g = filter (\<lambda>i. group_key toLowerCase i = Inr (group_id g)) all_items"
      by (simp add: group_id_group_of_key items_group_of_key filter_group_key [OF ids])
    with l show "1 < length (items g)
            \<and> items g = filter (\<lambda>i. group_key toLowerCase i = Inr (group_id g)) all_items"
      by (rule conjI)
  qed
next
  assume "\<forall>i \<in> set all_items. ProviderIds i \<noteq> None"
  then show "\<exists>out. duplicateGroups localeCompare toLowerCase all_items searchTerm = Inr out"
    by (simp add: duplicateGroups_eq)
qed

text \<open>In the example catalog the entry with id 4 is alone under its key and has no group.\<close>

theorem duplicateGroups_no_singletons_witness:
  "\<exists>out. duplicateGroups compare_units toLowerCase_sample ex_catalog [] = Inr out
     \<and> map summary out =
         [(str ''imdb-tt9'', str ''Barbarian'', [str ''2'', str ''5'']),
          (str ''tmdb-1'', str ''Foo'', [str ''1'', str ''3'']),
          (str ''name-foo-2011'', str ''Foo'', [str ''6'', str ''7''])]
     \<and> 1 < length (items (out ! 0))
     \<and> 1 < length (items (out ! 1))
     \<and> 1 < length (items (out ! 2))"
proof -
  note t = duplicateGroups_no_singletons
      [where localeCompare = compare_units and toLowerCase = toLowerCase_sample
        and all_items = ex_catalog and searchTerm = "[]"]
  from t [THEN conjunct2] ex_catalog_has_ids
  obtain out where d: "duplicateGroups compare_units toLowerCase_sample ex_catalog [] = Inr out"
    by blast
  have e: "map summary out =
         [(str ''imdb-tt9'', str ''Barbarian'', [str ''2'', str ''5'']),
          (str ''tmdb-1'', str ''Foo'', [str ''1'', str ''3'']),
          (str ''name-foo-2011'', str ''Foo'', [str ''6'', str ''7''])]"
    using ex_catalog_all unfolding d by simp
  have "length (map summary out) = 3"
    by (simp only: e) simp
  then have n: "length out = 3" by simp
  have m: "out ! 0 \<in> set out" "out ! 1 \<in> set out" "out ! 2 \<in> set out"
    using n by simp_all
  have a: "\<forall>g \<in> set out. 1 < length (items g)"
    using duplicateGroups_no_singletons
      [where localeCompare = compare_units and toLowerCase = toLowerCase_sample
        and all_items = ex_catalog and searchTerm = "[]" and out = out, THEN conjunct1] d
    by blast
  have a0: "1 < length (items (out ! 0))" using a m(1) by blast
  have a1: "1 < length (items (out ! 1))" using a m(2) by blast
  have a2: "1 < length (items (out ! 2))" using a m(3) by blast
  show ?thesis
    using d e a0 a1 a2 by (intro exI [of _ out] conjI)
qed

text \<open>
  C7, as stated, fails on the code. The catalog holds two entries titled with the Greek
  capitals kappa, omicron, sigma, mu, omicron, sigma, so they form a group. The search term
  is the first three letters of that title, capitals as well: a substring of the title even
  without regard to case. \<^verbatim>\<open>toLowerCase\<close> turns the sigma inside the title into the
  medial small sigma and the sigma at the end of the term into the final small sigma, so the
  lower-cased title does not contain the lower-cased term and the group is dropped.
\<close>

theorem searchFilter_case_insensitive_counterexample:
  "startsWith ex_kosmos_title ex_kosmos_term
   \<and> map_sum id (map summary)
       (duplicateGroups compare_units toLowerCase_sample ex_kosmos_catalog []) =
       Inr [(str ''tmdb-8'', ex_kosmos_title, [str ''1'', str ''2''])]
   \<and> duplicateGroups compare_units toLowerCase_sample ex_kosmos_catalog ex_kosmos_term = Inr []
   \<and> toLowerCase_sample ex_kosmos_title = [0x3BA, 0x3BF, 0x3C3, 0x3BC, 0x3BF, 0x3C2]
   \<and> toLowerCase_sample ex_kosmos_term = [0x3BA, 0x3BF, 0x3C2]"
  by (simp add: eval_defs ex_kosmos_catalog_def ex_kosmos_title_def ex_kosmos_term_def)

text \<open>
  C7, amended. For a consistent comparison of titles, and a catalog that the partition
  accepts: the groups returned are, as a multiset, the groups of more than one member that
  pass the filter; a group passes iff the search term is empty or the lower-cased title
  contains the lower-cased term; the groups are sorted ascending by title; and groups whose
  titles compare equal keep the relative order they had after the filter. Where
  \<^verbatim>\<open>toLowerCase\<close> lowers the title and the term one code unit at a time, the lower-cased
  title contains the lower-cased term iff the term is a case-insensitive substring of the
  title.
\<close>

theorem duplicateGroups_filter_then_stable_sort:
  "consistent localeCompare \<Longrightarrow> groupItems toLowerCase all_items = Inr groups \<Longrightarrow>
     (\<exists>out. duplicateGroups localeCompare toLowerCase all_items searchTerm = Inr out
        \<and> mset out =
            mset (filter (\<lambda>g. searchTerm = []
                              \<or> contains (toLowerCase (title g)) (toLowerCase searchTerm))
                    (removeSingles groups))
        \<and> (\<forall>g \<in> set (removeSingles groups).
              g \<in> set out \<longleftrightarrow>
              searchTerm = [] \<or> contains (toLowerCase (title g)) (toLowerCase searchTerm))
        \<and> sorted_wrt (\<lambda>a b. localeCompare (title a) (title b) \<le> 0) out
        \<and> (\<forall>t. filter (\<lambda>g. localeCompare (title g) t = 0) out =
                filter (\<lambda>g. localeCompare (title g) t = 0)
                  (filter (\<lambda>g. searchTerm = []
                                \<or> contains (toLowerCase (title g)) (toLowerCase searchTerm))
                     (removeSingles groups))))
     \<and> (toLowerCase (title g) = map f (title g) \<and> toLowerCase searchTerm = map f searchTerm
          \<longrightarrow> (contains (toLowerCase (title g)) (toLowerCase searchTerm)
                 \<longleftrightarrow> ci_substring f searchTerm (title g)))"
proof -
  assume c: "consistent localeCompare" and gr: "groupItems toLowerCase all_items = Inr groups"
  let ?cmp = "\<lambda>a b. localeCompare (title a) (title b)"
  let ?pass = "\<lambda>g. searchTerm = []
                 \<or> contains (toLowerCase (title g)) (toLowerCase searchTerm)"
  let ?out = "array_sort ?cmp (filter ?pass (removeSingles groups))"
  have d: "duplicateGroups localeCompare toLowerCase all_items searchTerm = Inr ?out"
    by (simp add: duplicateGroups_def gr Let_def searchFilter_eq)
  have 1: "mset ?out = mset (filter ?pass (removeSingles groups))"
    by (rule mset_array_sort)
  have 2: "\<forall>g \<in> set (removeSingles groups). g \<in> set ?out \<longleftrightarrow> ?pass g"
    by (simp add: set_array_sort)
  have 3: "sorted_wrt (\<lambda>a b. localeCompare (title a) (title b) \<le> 0) ?out"
    using consistent_on_titles [OF c] by (rule sorted_array_sort)
  have 4: "\<forall>t. filter (\<lambda>g. localeCompare (title g) t = 0) ?out =
                filter (\<lambda>g. localeCompare (title g) t = 0) (filter ?pass (removeSingles groups))"
    using ties_keep_order [OF c] by blast
  have 5: "toLowerCase (title g) = map f (title g) \<and> toLowerCase searchTerm = map f searchTerm
          \<longrightarrow> (contains (toLowerCase (title g)) (toLowerCase searchTerm)
                 \<longleftrightarrow> ci_substring f searchTerm (title g))"
    using contains_map_iff [of f "title g" searchTerm] by simp
  from d 1 2 3 4 have "\<exists>out. duplicateGroups localeCompare toLowerCase all_items searchTerm = Inr out
        \<and> mset out = mset (filter ?pass (removeSingles groups))
        \<and> (\<forall>g \<in> set (removeSingles groups). g \<in> set out \<longleftrightarrow> ?pass g)
        \<and> sorted_wrt (\<lambda>a b. localeCompare (title a) (title b) \<le> 0) out
        \<and> (\<forall>t. filter (\<lambda>g. localeCompare (title g) t = 0) out =
                filter (\<lambda>g. localeCompare (title g) t = 0) (filter ?pass (removeSingles groups)))"
    by (intro exI [of _ ?out] conjI)
  from this 5 show ?thesis by (rule conjI)
qed

lemma ex_ecole_lowered:
  "toLowerCase_sample (0xC9 # str ''COLE'') = map lower_unit (0xC9 # str ''COLE'')
   \<and> toLowerCase_sample ex_ecole_term = map lower_unit ex_ecole_term"
  by (simp add: eval_defs ex_ecole_term_def)

lemma ex_ecole_contains:
  "str_includes (toLowerCase_sample (0xC9 # str ''COLE'')) (toLowerCase_sample ex_ecole_term)"
  by (simp add: eval_defs ex_ecole_term_def)

text \<open>
  In the example catalog the groups of more than one member have the titles Foo, Barbarian
  and Foo. The term bar keeps Barbarian only; without a term Barbarian comes first and the
  two groups titled Foo keep their order. The group titled ECOLE with an acute accent passes
  the term ecole with an acute accent, which is a case-insensitive substring of its title.
\<close>

theorem duplicateGroups_filter_then_stable_sort_witness:
  "consistent compare_units
   \<and> map_sum id (map summary \<circ> removeSingles) (groupItems toLowerCase_sample ex_catalog) =
       Inr [(str ''tmdb-1'', str ''Foo'', [str ''1'', str ''3'']),
            (str ''imdb-tt9'', str ''Barbarian'', [str ''2'', str ''5'']),
            (str ''name-foo-2011'', str ''Foo'', [str ''6'', str ''7''])]
   \<and> map_sum id (map summary)
       (duplicateGroups compare_units toLowerCase_sample ex_catalog (str ''bar'')) =
       Inr [(str ''imdb-tt9'', str ''Barbarian'', [str ''2'', str ''5''])]
   \<and> map_sum id (map summary) (duplicateGroups compare_units toLowerCase_sample ex_catalog []) =
       Inr [(str ''imdb-tt9'', str ''Barbarian'', [str ''2'', str ''5'']),
            (str ''tmdb-1'', str ''Foo'', [str ''1'', str ''3'']),
            (str ''name-foo-2011'', str ''Foo'', [str ''6'', str ''7''])]
   \<and> (\<exists>out. duplicateGroups compare_units toLowerCase_sample ex_catalog (str ''bar'') = Inr out
         \<and> sorted_wrt (\<lambda>a b. compare_units (title a) (title b) \<le> 0) out)
   \<and> map_sum id (map summary)
       (duplicateGroups compare_units toLowerCase_sample ex_ecole_catalog ex_ecole_term) =
       Inr [(str ''tmdb-5'', 0xC9 # str ''COLE'', [str ''1'', str ''2''])]
   \<and> ci_substring lower_unit ex_ecole_term (0xC9 # str ''COLE'')"
proof -
  obtain groups where gr: "groupItems toLowerCase_sample ex_catalog = Inr groups"
    using ex_catalog_has_ids by (simp add: groupItems_eq)
  note t = duplicateGroups_filter_then_stable_sort
      [OF consistent_compare_units gr, where searchTerm = "str ''bar''"]
  from t [THEN conjunct1]
  have s: "\<exists>out. duplicateGroups compare_units toLowerCase_sample ex_catalog (str ''bar'') = Inr out
         \<and> sorted_wrt (\<lambda>a b. compare_units (title a) (title b) \<le> 0) out"
    by blast
  note u = t [where g = "\<lparr>group_id = [], title = 0xC9 # str ''COLE'', year = None, items = []\<rparr>"
      and f = lower_unit, THEN conjunct2]
  have l: "toLowerCase_sample (0xC9 # str ''COLE'') = map lower_unit (0xC9 # str ''COLE'')
   \<and> toLowerCase_sample ex_ecole_term = map lower_unit ex_ecole_term"
    by (rule ex_ecole_lowered)
  have k: "contains (toLowerCase_sample (0xC9 # str ''COLE'')) (toLowerCase_sample ex_ecole_term)"
    using ex_ecole_contains by (simp only: str_includes_iff)
  have ci: "ci_substring lower_unit ex_ecole_term (0xC9 # str ''COLE'')"
    using duplicateGroups_filter_then_stable_sort
      [OF consistent_compare_units gr,
        where g = "\<lparr>group_id = [], title = 0xC9 # str ''COLE'', year = None, items = []\<rparr>"
        and f = lower_unit and searchTerm = ex_ecole_term, THEN conjunct2] l k
    by simp
  show ?thesis
    by (rule conjI [OF consistent_compare_units conjI [OF ex_catalog_singles_removed
          conjI [OF ex_catalog_bar conjI [OF ex_catalog_all conjI [OF s
          conjI [OF ex_ecole_kept ci]]]]]])
qed

section \<open>Properties of the statistics\<close>

lemma foldl_plus: "foldl (\<lambda>a b. a + b) (a::int) xs = a + sum_list xs"
  by (induction xs arbitrary: a) auto

lemma foldl_max: "foldl max (x::int) xs = Max (set (x # xs))"
proof (induction xs arbitrary: x)
  case Nil
  show ?case by simp
next
  case (Cons y ys)
  have "foldl max x (y # ys) = Max (set (max x y # ys))"
    using Cons [of "max x y"] by simp
  also have "\<dots> = Max (set (x # y # ys))"
    by (cases "set ys = {}") (simp_all add: max.assoc)
  finally show ?case .
qed

lemma foldl_totalDuplicates:
  "foldl (\<lambda>acc grp. acc + int (length (items grp)) - 1) a groups =
     a + sum_list (map (\<lambda>g. int (length (items g)) - 1) groups)"
  by (induction groups arbitrary: a) auto

lemma wastedOfGroup_nonempty:
  assumes "items g \<noteq> []"
  shows "wastedOfGroup g =
     Num (sum_list (map sourceSize (items g)) - Max (set (map sourceSize (items g))))"
proof -
  from assms obtain x xs where "items g = x # xs" by (cases "items g") auto
  then show ?thesis
    by (simp add: wastedOfGroup_def Let_def js_sub_def foldl_plus foldl_max)
qed

lemma foldl_wasted:
  "\<forall>g \<in> set groups. items g \<noteq> [] \<Longrightarrow>
     foldl (\<lambda>total grp. js_add total (wastedOfGroup grp)) (Num a) groups =
       Num (a + sum_list (map (\<lambda>g. sum_list (map sourceSize (items g))
                                   - Max (set (map sourceSize (items g)))) groups))"
proof (induction groups arbitrary: a)
  case Nil
  show ?case by simp
next
  case (Cons g gs)
  then show ?case by (simp add: wastedOfGroup_nonempty add.assoc)
qed

lemma items_nonempty_duplicateGroups:
  assumes "duplicateGroups localeCompare toLowerCase all_items searchTerm = Inr out"
    and "g \<in> set out"
  shows "items g \<noteq> []"
proof -
  from assms(1) have "out = array_sort (\<lambda>a b. localeCompare (title a) (title b))
      (searchFilter toLowerCase searchTerm (removeSingles (keyed_groups toLowerCase all_items)))"
    by (simp add: duplicateGroups_eq split: if_splits)
  with assms(2) have "1 < length (items g)"
    using set_pipeline [of "\<lambda>a b. localeCompare (title a) (title b)" toLowerCase searchTerm
        "keyed_groups toLowerCase all_items"]
    by auto
  then show ?thesis by auto
qed

text \<open>A group without members would make the total infinite; the pipeline returns none.\<close>

lemma wastedSpace_total_empty_group:
  "wastedSpace_total [\<lparr>group_id = k, title = t, year = y, items = []\<rparr>] = PosInfinity"
  by (simp add: wastedSpace_total_def wastedOfGroup_def js_sub_def)

text \<open>
  C8. The number of duplicates is the sum over the groups of the number of members minus
  one. For groups that have members (as all groups of the pipeline do), the wasted space
  before the conversion to gigabytes is the sum over the groups of the sum of the members'
  first-source sizes minus the largest of them, an absent size counting as 0.
\<close>

theorem statistics_are_sums_over_groups:
  "totalDuplicates groups = sum_list (map (\<lambda>g. int (length (items g)) - 1) groups)
   \<and> ((\<forall>g \<in> set groups. items g \<noteq> []) \<longrightarrow>
        wastedSpace_total groups =
          Num (sum_list (map (\<lambda>g. sum_list (map sourceSize (items g))
                                   - Max (set (map sourceSize (items g)))) groups)))
   \<and> (duplicateGroups localeCompare toLowerCase all_items searchTerm = Inr out \<longrightarrow>
        wastedSpace_total out =
          Num (sum_list (map (\<lambda>g. sum_list (map sourceSize (items g))
                                   - Max (set (map sourceSize (items g)))) out)))"
proof (intro conjI impI)
  show "totalDuplicates groups = sum_list (map (\<lambda>g. int (length (items g)) - 1) groups)"
    using foldl_totalDuplicates [of 0 groups] by (simp add: totalDuplicates_def)
next
  assume "\<forall>g \<in> set groups. items g \<noteq> []"
  then show "wastedSpace_total groups =
          Num (sum_list (map (\<lambda>g. sum_list (map sourceSize (items g))
                                   - Max (set (map sourceSize (items g)))) groups))"
    using foldl_wasted [of groups 0] by (simp add: wastedSpace_total_def)
next
  assume "duplicateGroups localeCompare toLowerCase all_items searchTerm = Inr out"
  then have "\<forall>g \<in> set out. items g \<noteq> []"
    using items_nonempty_duplicateGroups by blast
  then show "wastedSpace_total out =
          Num (sum_list (map (\<lambda>g. sum_list (map sourceSize (items g))
                                   - Max (set (map sourceSize (items g)))) out))"
    using foldl_wasted [of out 0] by (simp add: wastedSpace_total_def)
qed

text \<open>A group with sizes 10, 20 and 30: two duplicates, 60 - 30 = 30 bytes wasted.\<close>

theorem statistics_are_sums_over_groups_witness:
  "items ex_sizes_group \<noteq> []
   \<and> map sourceSize (items ex_sizes_group) = [10, 20, 30]
   \<and> wastedSpace_total [ex_sizes_group] = Num 30
   \<and> totalDuplicates [ex_sizes_group] = 2"
proof -
  have s: "map sourceSize (items ex_sizes_group) = [10, 20, 30]"
    by (simp add: ex_sizes_group_def entry_def source_def sourceSize_def)
  have n: "\<forall>g \<in> set [ex_sizes_group]. items g \<noteq> []"
    by (simp add: ex_sizes_group_def)
  show ?thesis
    using statistics_are_sums_over_groups [of "[ex_sizes_group]"] n s
    by (simp add: ex_sizes_group_def)
qed

section \<open>Where grouping and ranking are defined\<close>

text \<open>
  The grouping raises in one place, the read of \<^verbatim>\<open>item.ProviderIds.Tmdb\<close>; \<^verbatim>\<open>Name\<close> is a
  required field, and every other optional field is read through \<^verbatim>\<open>?.\<close> or \<^verbatim>\<open>||\<close>. The two
  partial operations downstream are \<^verbatim>\<open>reduce\<close> (a TypeError on an empty array) and
  \<^verbatim>\<open>Math.max\<close> (an infinity on no argument).
\<close>

lemma duplicateGroups_Nil: "duplicateGroups localeCompare toLowerCase [] searchTerm = Inr []"
  by (simp add: duplicateGroups_def groupItems_def removeSingles_def Object_values_def
      searchFilter_def Let_def)

text \<open>
  C9, as stated, fails on the code: an entry with all optional fields absent has no
  \<^verbatim>\<open>ProviderIds\<close> either (the specification lists the external ids as optional), and on
  such an entry the grouping raises a TypeError, alone or at the end of a catalog.
\<close>

theorem grouping_without_ProviderIds_counterexample:
  "ProviderIds ex_no_ids = None \<and> ProductionYear ex_no_ids = None
   \<and> MediaSources ex_no_ids = None
   \<and> groupItems toLowerCase_sample [ex_no_ids] = Inl TypeError
   \<and> duplicateGroups compare_units toLowerCase_sample [ex_no_ids] [] = Inl TypeError
   \<and> duplicateGroups compare_units toLowerCase_sample (ex_catalog @ [ex_no_ids]) []
       = Inl TypeError"
  by (simp add: duplicateGroups_eq groupItems_eq ex_no_ids_def)

text \<open>
  C9, amended. On the empty catalog the pipeline returns no group. On every catalog whose
  entries all have a \<^verbatim>\<open>ProviderIds\<close> object, the pipeline returns its groups, the ranking of
  each returned group returns an id rather than raising, and the wasted space is a finite
  number; when some entry lacks \<^verbatim>\<open>ProviderIds\<close> the pipeline raises a TypeError. An absent
  media source, bitrate or size reads as 0, and an absent year as the token 0000.
\<close>

theorem grouping_and_ranking_never_fail:
  "duplicateGroups localeCompare toLowerCase [] searchTerm = Inr []
   \<and> ((\<forall>i \<in> set all_items. ProviderIds i \<noteq> None) \<longrightarrow>
        (\<exists>out. duplicateGroups localeCompare toLowerCase all_items searchTerm = Inr out
           \<and> (\<forall>g \<in> set out. \<exists>i. getBestItemId (items g) = Inr i)
           \<and> (\<exists>n. wastedSpace_total out = Num n)))
   \<and> ((\<exists>i \<in> set all_items. ProviderIds i = None) \<longrightarrow>
        duplicateGroups localeCompare toLowerCase all_items searchTerm = Inl TypeError)
   \<and> (MediaSources item = None \<or> MediaSources item = Some []
        \<longrightarrow> sourceBitrate item = 0 \<and> sourceSize item = 0)
   \<and> (MediaSources item = Some (src # others) \<longrightarrow>
         (Bitrate src = None \<longrightarrow> sourceBitrate item = 0)
         \<and> (Size src = None \<longrightarrow> sourceSize item = 0))
   \<and> (ProductionYear item = None \<longrightarrow> year_token (ProductionYear item) = str ''0000'')"
proof (intro conjI impI)
  show "duplicateGroups localeCompare toLowerCase [] searchTerm = Inr []"
    by (rule duplicateGroups_Nil)
next
  assume ids: "\<forall>i \<in> set all_items. ProviderIds i \<noteq> None"
  then obtain out where d: "duplicateGroups localeCompare toLowerCase all_items searchTerm = Inr out"
    by (simp add: duplicateGroups_eq)
  have ne: "\<forall>g \<in> set out. items g \<noteq> []"
    using items_nonempty_duplicateGroups [OF d] by blast
  have r: "\<forall>g \<in> set out. \<exists>i. getBestItemId (items g) = Inr i"
  proof
    fix g assume "g \<in> set out"
    with ne have "items g \<noteq> []" by blast
    then obtain y ys where "items g = y # ys" by (cases "items g") auto
    then show "\<exists>i. getBestItemId (items g) = Inr i"
      by (simp add: getBestItemId_def)
  qed
  have w: "\<exists>n. wastedSpace_total out = Num n"
    using ne foldl_wasted [of out 0] by (simp add: wastedSpace_total_def)
  from d r w show "\<exists>out. duplicateGroups localeCompare toLowerCase all_items searchTerm = Inr out
           \<and> (\<forall>g \<in> set out. \<exists>i. getBestItemId (items g) = Inr i)
           \<and> (\<exists>n. wastedSpace_total out = Num n)"
    by (intro exI [of _ out] conjI)
next
  assume "\<exists>i \<in> set all_items. ProviderIds i = None"
  then show "duplicateGroups localeCompare toLowerCase all_items searchTerm = Inl TypeError"
    by (auto simp: duplicateGroups_eq)
next
  assume "MediaSources item = None \<or> MediaSources item = Some []"
  then show "sourceBitrate item = 0" and "sourceSize item = 0"
    by (auto simp: sourceBitrate_def sourceSize_def)
next
  assume "MediaSources item = Some (src # others)" and "Bitrate src = None"
  then show "sourceBitrate item = 0" by (simp add: sourceBitrate_def)
next
  assume "MediaSources item = Some (src # others)" and "Size src = None"
  then show "sourceSize item = 0" by (simp add: sourceSize_def)
next
  assume "ProductionYear item = None"
  then show "year_token (ProductionYear item) = str ''0000''" by (simp add: year_token_def)
qed

lemma ex_catalog_ranked:
  "map_sum id (map (\<lambda>g. getBestItemId (items g)))
     (duplicateGroups compare_units toLowerCase_sample ex_catalog []) =
       Inr [Inr (str ''2''), Inr (str ''3''), Inr (str ''6'')]"
  by (simp add: eval_defs ex_catalog_def getBestItemId_def pickBetter_def sourceBitrate_def
      sourceSize_def)

lemma ex_catalog_wasted:
  "map_sum id wastedSpace_total (duplicateGroups compare_units toLowerCase_sample ex_catalog [])
     = Inr (Num 0)"
  by (simp add: eval_defs ex_catalog_def wastedSpace_total_def wastedOfGroup_def js_sub_def
      sourceSize_def)

text \<open>
  The example catalog, which holds an entry whose only optional field is \<^verbatim>\<open>ProviderIds\<close>
  and entries without sources, sizes or bitrates: three groups, an id for each, no wasted
  byte known.
\<close>

theorem grouping_and_ranking_never_fail_witness:
  "duplicateGroups compare_units toLowerCase_sample [] (str ''bar'') = Inr []
   \<and> (\<exists>out. duplicateGroups compare_units toLowerCase_sample ex_catalog [] = Inr out
         \<and> (\<exists>n. wastedSpace_total out = Num n))
   \<and> ex_catalog ! 3 = entry (str ''4'') (str ''Bar'') None None None None
   \<and> group_key toLowerCase_sample (ex_catalog ! 3) = Inr (str ''name-bar-0000'')
   \<and> sourceBitrate (ex_catalog ! 3) = 0 \<and> sourceSize (ex_catalog ! 3) = 0
   \<and> map_sum id (map (\<lambda>g. getBestItemId (items g)))
       (duplicateGroups compare_units toLowerCase_sample ex_catalog []) =
       Inr [Inr (str ''2''), Inr (str ''3''), Inr (str ''6'')]
   \<and> map_sum id wastedSpace_total (duplicateGroups compare_units toLowerCase_sample ex_catalog [])
       = Inr (Num 0)"
proof -
  note t = grouping_and_ranking_never_fail
      [where localeCompare = compare_units and toLowerCase = toLowerCase_sample
        and all_items = ex_catalog and item = "ex_catalog ! 3"]
  have a: "duplicateGroups compare_units toLowerCase_sample [] (str ''bar'') = Inr []"
    by (rule t [where searchTerm = "str ''bar''", THEN conjunct1])
  from t [where searchTerm = "[]", THEN conjunct2, THEN conjunct1, THEN mp,
      OF ex_catalog_has_ids]
  have b: "\<exists>out. duplicateGroups compare_units toLowerCase_sample ex_catalog [] = Inr out
         \<and> (\<exists>n. wastedSpace_total out = Num n)"
    by (elim exE conjE) (intro exI conjI; assumption)
  have e: "ex_catalog ! 3 = entry (str ''4'') (str ''Bar'') None None None None"
    by (simp add: ex_catalog_def)
  have m: "MediaSources (ex_catalog ! 3) = None \<or> MediaSources (ex_catalog ! 3) = Some []"
    by (simp add: e entry_def)
  note z = t [where searchTerm = "[]", THEN conjunct2, THEN conjunct2, THEN conjunct2,
      THEN conjunct1, THEN mp, OF m]
  have k: "group_key toLowerCase_sample (ex_catalog ! 3) = Inr (str ''name-bar-0000'')"
    by (simp add: eval_defs ex_catalog_def)
  show ?thesis
    by (rule conjI [OF a conjI [OF b conjI [OF e conjI [OF k conjI [OF z [THEN conjunct1]
          conjI [OF z [THEN conjunct2] conjI [OF ex_catalog_ranked ex_catalog_wasted]]]]]]])
qed

end
